theory Spec2Isabelle
  imports Main
begin

section \<open>Shared modelling of the page\<close>

text \<open>
  The scripts mutate a handful of DOM elements. Only the properties the code reads or
  writes are kept: \<open>src\<close>, \<open>alt\<close>, \<open>textContent\<close>, \<open>style.opacity\<close> and
  \<open>style.display\<close>. \<open>document.getElementById\<close> and \<open>document.querySelector\<close>
  yield \<open>null\<close> for an element the page lacks, which is \<open>None\<close> here.
\<close>

record element =
  el_src :: string
  el_alt :: string
  el_textContent :: string
  el_opacity :: string
  el_display :: string

text \<open>
  A handler that dereferences \<open>null\<close> or \<open>undefined\<close> throws a \<open>TypeError\<close>. The
  assignments made before the throw stay in place, so a thrown outcome carries the
  state reached at the throw.
\<close>

datatype js_error = TypeError

datatype 's outcome = Completed 's | Threw js_error 's

fun state_of :: "'s outcome \<Rightarrow> 's" where
  "state_of (Completed s) = s"
| "state_of (Threw e s) = s"

fun threw :: "'s outcome \<Rightarrow> bool" where
  "threw (Completed s) = False"
| "threw (Threw e s) = True"

text \<open>A block of statements runs in order and stops at the first throw.\<close>

fun run_stmts :: "('s \<Rightarrow> 's outcome) list \<Rightarrow> 's \<Rightarrow> 's outcome" where
  "run_stmts [] s = Completed s"
| "run_stmts (f # fs) s =
     (case f s of Completed s' \<Rightarrow> run_stmts fs s' | Threw e s' \<Rightarrow> Threw e s')"

text \<open>
  A console entry keeps the message and any string argument, joined by a space; the
  object of elements that \<open>console.log\<close> prints at initialization is left out.
\<close>

datatype console_entry = ConsoleLog string | ConsoleError string

section \<open>The image slider\<close>

record entry =
  entry_src :: string
  caption :: string

text \<open>The array literal \<open>images\<close> of \<open>initializeImageSlider\<close>.\<close>

definition site_images :: "entry list" where
  "site_images =
    [\<lparr>entry_src = ''assets/images/Main Menu Showcase.PNG'', caption = ''Main Menu''\<rparr>,
     \<lparr>entry_src = ''assets/images/Agent Showcase.png'', caption = ''Agent Mode Showcase''\<rparr>,
     \<lparr>entry_src = ''assets/images/Agent Mode New commands.PNG'',
      caption = ''Agent Mode - New Commands''\<rparr>,
     \<lparr>entry_src = ''assets/images/Second Agent.PNG'',
      caption = ''Agent Mode - Example Interaction''\<rparr>,
     \<lparr>entry_src = ''assets/images/First Implementation Chat With Ai.png'',
      caption = ''Chat With AI - Initial Query''\<rparr>,
     \<lparr>entry_src = ''assets/images/Second Implementation Chat With Ai.PNG'',
      caption = ''Chat With AI - Follow-up''\<rparr>]"

text \<open>
  The four elements the slider looks up by id, as the page provides them.
\<close>

record slider_dom =
  sliderImage :: "element option"
  imageCaption :: "element option"
  prevButton :: "element option"
  nextButton :: "element option"

text \<open>
  The state the slider's closures share: the elements, the cursor \<open>currentIndex\<close>,
  whether each click listener has been added, the \<open>src\<close> of every off-screen
  \<open>Image\<close> whose load is still outstanding (oldest first), and the console.
\<close>

record slider_page = slider_dom +
  currentIndex :: int
  prev_listener :: bool
  next_listener :: bool
  pending :: "string list"
  console :: "console_entry list"

text \<open>\<open>images[i]\<close>: \<open>undefined\<close> outside the array, also for \<open>i = -1\<close>.\<close>

definition entry_at :: "entry list \<Rightarrow> int \<Rightarrow> entry option" where
  "entry_at images i =
     (if 0 \<le> i \<and> i < int (length images) then Some (images ! nat i) else None)"

text \<open>A statement that reads a property of \<open>images[currentIndex]\<close>.\<close>

definition with_current ::
  "entry list \<Rightarrow> (entry \<Rightarrow> slider_page \<Rightarrow> slider_page outcome) \<Rightarrow> slider_page
     \<Rightarrow> slider_page outcome" where
  "with_current images k p =
     (case entry_at images (currentIndex p) of
        None \<Rightarrow> Threw TypeError p
      | Some en \<Rightarrow> k en p)"

text \<open>Assignments to a property of one of the looked-up elements.\<close>

definition set_sliderImage :: "(element \<Rightarrow> element) \<Rightarrow> slider_page \<Rightarrow> slider_page outcome" where
  "set_sliderImage f p =
     (case sliderImage p of
        None \<Rightarrow> Threw TypeError p
      | Some e \<Rightarrow> Completed (p\<lparr>sliderImage := Some (f e)\<rparr>))"

definition set_imageCaption :: "(element \<Rightarrow> element) \<Rightarrow> slider_page \<Rightarrow> slider_page outcome" where
  "set_imageCaption f p =
     (case imageCaption p of
        None \<Rightarrow> Threw TypeError p
      | Some e \<Rightarrow> Completed (p\<lparr>imageCaption := Some (f e)\<rparr>))"

definition set_prevButton :: "(element \<Rightarrow> element) \<Rightarrow> slider_page \<Rightarrow> slider_page outcome" where
  "set_prevButton f p =
     (case prevButton p of
        None \<Rightarrow> Threw TypeError p
      | Some e \<Rightarrow> Completed (p\<lparr>prevButton := Some (f e)\<rparr>))"

definition set_nextButton :: "(element \<Rightarrow> element) \<Rightarrow> slider_page \<Rightarrow> slider_page outcome" where
  "set_nextButton f p =
     (case nextButton p of
        None \<Rightarrow> Threw TypeError p
      | Some e \<Rightarrow> Completed (p\<lparr>nextButton := Some (f e)\<rparr>))"

definition log_entry :: "console_entry \<Rightarrow> slider_page \<Rightarrow> slider_page outcome" where
  "log_entry c p = Completed (p\<lparr>console := console p @ [c]\<rparr>)"

subsection \<open>The asynchronous copy (the file with the fullscreen viewer)\<close>

text \<open>
  \<open>updateSlider\<close> dims the visible image and starts an off-screen load of
  \<open>images[currentIndex].src\<close>. Its \<open>onload\<close> and \<open>onerror\<close> closures read the
  variable \<open>currentIndex\<close> when they run, not when the load was started.
\<close>

definition updateSlider :: "entry list \<Rightarrow> slider_page \<Rightarrow> slider_page outcome" where
  "updateSlider images =
     run_stmts
       [set_sliderImage (\<lambda>e. e\<lparr>el_opacity := ''0.5''\<rparr>),
        with_current images (\<lambda>en p. Completed (p\<lparr>pending := pending p @ [entry_src en]\<rparr>))]"

definition img_onload :: "entry list \<Rightarrow> slider_page \<Rightarrow> slider_page outcome" where
  "img_onload images =
     run_stmts
       [with_current images (\<lambda>en. set_sliderImage (\<lambda>e. e\<lparr>el_src := entry_src en\<rparr>)),
        with_current images (\<lambda>en. set_sliderImage (\<lambda>e. e\<lparr>el_alt := caption en\<rparr>)),
        with_current images (\<lambda>en. set_imageCaption (\<lambda>e. e\<lparr>el_textContent := caption en\<rparr>)),
        set_sliderImage (\<lambda>e. e\<lparr>el_opacity := ''1''\<rparr>)]"

definition img_onerror :: "entry list \<Rightarrow> slider_page \<Rightarrow> slider_page outcome" where
  "img_onerror images =
     run_stmts
       [with_current images (\<lambda>en. log_entry (ConsoleError (''Failed to load image: '' @ entry_src en))),
        set_sliderImage (\<lambda>e. e\<lparr>el_src := ''''\<rparr>),
        set_sliderImage (\<lambda>e. e\<lparr>el_alt := ''Image failed to load''\<rparr>),
        set_imageCaption (\<lambda>e. e\<lparr>el_textContent := ''Image failed to load''\<rparr>),
        set_sliderImage (\<lambda>e. e\<lparr>el_opacity := ''1''\<rparr>)]"

text \<open>The two click listeners: move the cursor with wraparound, then \<open>updateSlider()\<close>.\<close>

definition prevButton_click :: "entry list \<Rightarrow> slider_page \<Rightarrow> slider_page outcome" where
  "prevButton_click images =
     run_stmts
       [\<lambda>p. Completed (p\<lparr>currentIndex :=
               (if currentIndex p > 0 then currentIndex p - 1 else int (length images) - 1)\<rparr>),
        updateSlider images]"

definition nextButton_click :: "entry list \<Rightarrow> slider_page \<Rightarrow> slider_page outcome" where
  "nextButton_click images =
     run_stmts
       [\<lambda>p. Completed (p\<lparr>currentIndex :=
               (if currentIndex p < int (length images) - 1 then currentIndex p + 1 else 0)\<rparr>),
        updateSlider images]"

text \<open>
  The page as the script finds it, with \<open>let currentIndex = 0\<close>: no listener yet, no
  load outstanding.
\<close>

definition page_of :: "slider_dom \<Rightarrow> slider_page" where
  "page_of d =
     \<lparr>sliderImage = sliderImage d, imageCaption = imageCaption d,
      prevButton = prevButton d, nextButton = nextButton d,
      currentIndex = 0, prev_listener = False, next_listener = False,
      pending = [], console = []\<rparr>"

definition elements_missing :: "slider_page \<Rightarrow> bool" where
  "elements_missing p \<longleftrightarrow>
     sliderImage p = None \<or> imageCaption p = None \<or> prevButton p = None \<or> nextButton p = None"

definition initializeImageSlider :: "entry list \<Rightarrow> slider_dom \<Rightarrow> slider_page outcome" where
  "initializeImageSlider images d =
     run_stmts
       [log_entry (ConsoleLog ''Image slider elements:''),
        \<lambda>p. if elements_missing p
             then log_entry (ConsoleError ''Image slider elements not found'') p
             else run_stmts
               [\<lambda>p. if sliderImage p \<noteq> None \<and> length images > 0
                     then run_stmts
                       [\<lambda>p. case entry_at images 0 of None \<Rightarrow> Threw TypeError p
                             | Some en \<Rightarrow> set_sliderImage (\<lambda>e. e\<lparr>el_src := entry_src en\<rparr>) p,
                        \<lambda>p. case entry_at images 0 of None \<Rightarrow> Threw TypeError p
                             | Some en \<Rightarrow> set_sliderImage (\<lambda>e. e\<lparr>el_alt := caption en\<rparr>) p,
                        \<lambda>p. if imageCaption p \<noteq> None
                             then (case entry_at images 0 of None \<Rightarrow> Threw TypeError p
                                   | Some en \<Rightarrow>
                                       set_imageCaption (\<lambda>e. e\<lparr>el_textContent := caption en\<rparr>) p)
                             else Completed p] p
                     else Completed p,
                \<lambda>p. if prevButton p = None then Threw TypeError p
                     else Completed (p\<lparr>prev_listener := True\<rparr>),
                \<lambda>p. if nextButton p = None then Threw TypeError p
                     else Completed (p\<lparr>next_listener := True\<rparr>),
                \<lambda>p. if length images > 0 then updateSlider images p
                     else run_stmts
                       [set_imageCaption (\<lambda>e. e\<lparr>el_textContent := ''No images to display.''\<rparr>),
                        set_sliderImage (\<lambda>e. e\<lparr>el_display := ''none''\<rparr>),
                        set_prevButton (\<lambda>e. e\<lparr>el_display := ''none''\<rparr>),
                        set_nextButton (\<lambda>e. e\<lparr>el_display := ''none''\<rparr>)] p] p]
       (page_of d)"

text \<open>
  What the browser delivers afterwards: clicks on the two buttons, and, for any
  outstanding load, its success or its failure. \<open>LoadSucceeds k\<close> and \<open>LoadFails k\<close>
  settle the \<open>k\<close>-th outstanding load; an \<open>Image\<close> fires one of the two once.
\<close>

datatype click = Prev | Next

datatype slider_event = Click click | LoadSucceeds nat | LoadFails nat

definition settle :: "nat \<Rightarrow> slider_page \<Rightarrow> slider_page" where
  "settle k p = p\<lparr>pending := take k (pending p) @ drop (Suc k) (pending p)\<rparr>"

fun dispatch :: "entry list \<Rightarrow> slider_event \<Rightarrow> slider_page \<Rightarrow> slider_page outcome" where
  "dispatch images (Click Prev) p =
     (if prevButton p \<noteq> None \<and> prev_listener p then prevButton_click images p
      else Completed p)"
| "dispatch images (Click Next) p =
     (if nextButton p \<noteq> None \<and> next_listener p then nextButton_click images p
      else Completed p)"
| "dispatch images (LoadSucceeds k) p =
     (if k < length (pending p) then img_onload images (settle k p) else Completed p)"
| "dispatch images (LoadFails k) p =
     (if k < length (pending p) then img_onerror images (settle k p) else Completed p)"

text \<open>An uncaught throw ends its handler only; the next event finds the state it left.\<close>

fun run :: "entry list \<Rightarrow> slider_event list \<Rightarrow> slider_page \<Rightarrow> slider_page" where
  "run images [] p = p"
| "run images (ev # evs) p = run images evs (state_of (dispatch images ev p))"

subsection \<open>The synchronous copy (\<open>assets/js/animations.js\<close>)\<close>

definition updateSlider_sync :: "entry list \<Rightarrow> slider_page \<Rightarrow> slider_page outcome" where
  "updateSlider_sync images =
     run_stmts
       [with_current images (\<lambda>en. set_sliderImage (\<lambda>e. e\<lparr>el_src := entry_src en\<rparr>)),
        with_current images (\<lambda>en. set_sliderImage (\<lambda>e. e\<lparr>el_alt := caption en\<rparr>)),
        with_current images (\<lambda>en. set_imageCaption (\<lambda>e. e\<lparr>el_textContent := caption en\<rparr>))]"

definition prevButton_click_sync :: "entry list \<Rightarrow> slider_page \<Rightarrow> slider_page outcome" where
  "prevButton_click_sync images =
     run_stmts
       [\<lambda>p. Completed (p\<lparr>currentIndex :=
               (if currentIndex p > 0 then currentIndex p - 1 else int (length images) - 1)\<rparr>),
        updateSlider_sync images]"

definition nextButton_click_sync :: "entry list \<Rightarrow> slider_page \<Rightarrow> slider_page outcome" where
  "nextButton_click_sync images =
     run_stmts
       [\<lambda>p. Completed (p\<lparr>currentIndex :=
               (if currentIndex p < int (length images) - 1 then currentIndex p + 1 else 0)\<rparr>),
        updateSlider_sync images]"

definition initializeImageSlider_sync :: "entry list \<Rightarrow> slider_dom \<Rightarrow> slider_page outcome" where
  "initializeImageSlider_sync images d =
     run_stmts
       [\<lambda>p. if elements_missing p
             then Completed p
             else run_stmts
               [\<lambda>p. if prevButton p = None then Threw TypeError p
                     else Completed (p\<lparr>prev_listener := True\<rparr>),
                \<lambda>p. if nextButton p = None then Threw TypeError p
                     else Completed (p\<lparr>next_listener := True\<rparr>),
                \<lambda>p. if length images > 0 then updateSlider_sync images p
                     else run_stmts
                       [set_imageCaption (\<lambda>e. e\<lparr>el_textContent := ''No images to display.''\<rparr>),
                        set_sliderImage (\<lambda>e. e\<lparr>el_display := ''none''\<rparr>),
                        set_prevButton (\<lambda>e. e\<lparr>el_display := ''none''\<rparr>),
                        set_nextButton (\<lambda>e. e\<lparr>el_display := ''none''\<rparr>)] p] p]
       (page_of d)"

fun dispatch_sync :: "entry list \<Rightarrow> click \<Rightarrow> slider_page \<Rightarrow> slider_page outcome" where
  "dispatch_sync images Prev p =
     (if prevButton p \<noteq> None \<and> prev_listener p then prevButton_click_sync images p
      else Completed p)"
| "dispatch_sync images Next p =
     (if nextButton p \<noteq> None \<and> next_listener p then nextButton_click_sync images p
      else Completed p)"

fun run_sync :: "entry list \<Rightarrow> click list \<Rightarrow> slider_page \<Rightarrow> slider_page" where
  "run_sync images [] p = p"
| "run_sync images (c # cs) p = run_sync images cs (state_of (dispatch_sync images c p))"

text \<open>The clicks among the events, in order.\<close>

fun clicks_of :: "slider_event list \<Rightarrow> click list" where
  "clicks_of [] = []"
| "clicks_of (Click c # evs) = c # clicks_of evs"
| "clicks_of (LoadSucceeds k # evs) = clicks_of evs"
| "clicks_of (LoadFails k # evs) = clicks_of evs"

subsection \<open>Vocabulary of the slider's properties\<close>

definition complete_dom :: "slider_dom \<Rightarrow> bool" where
  "complete_dom d \<longleftrightarrow>
     sliderImage d \<noteq> None \<and> imageCaption d \<noteq> None \<and> prevButton d \<noteq> None \<and> nextButton d \<noteq> None"

definition valid_index :: "entry list \<Rightarrow> int \<Rightarrow> bool" where
  "valid_index images i \<longleftrightarrow> 0 \<le> i \<and> i < int (length images)"

text \<open>An element is hidden when its \<open>style.display\<close> is \<open>none\<close>.\<close>

definition hidden :: "element option \<Rightarrow> bool" where
  "hidden x = (case x of None \<Rightarrow> False | Some e \<Rightarrow> el_display e = ''none'')"

text \<open>What the visitor sees of the slider: image source, alt text, caption text.\<close>

definition shown :: "slider_page \<Rightarrow> (string \<times> string \<times> string) option" where
  "shown p =
     (case (sliderImage p, imageCaption p) of
        (Some im, Some cap) \<Rightarrow> Some (el_src im, el_alt im, el_textContent cap)
      | _ \<Rightarrow> None)"

definition opacity_of :: "slider_page \<Rightarrow> string option" where
  "opacity_of p = map_option el_opacity (sliderImage p)"

text \<open>The cursor moves of the two listeners, as the handlers leave the state.\<close>

definition goNext :: "entry list \<Rightarrow> slider_page \<Rightarrow> slider_page" where
  "goNext images p = state_of (nextButton_click images p)"

definition goPrevious :: "entry list \<Rightarrow> slider_page \<Rightarrow> slider_page" where
  "goPrevious images p = state_of (prevButton_click images p)"

text \<open>
  Facts every state reached from initialization satisfies: a listener or an
  outstanding load exists only when the elements do, a load is outstanding only for
  a non-empty array, and the cursor of a non-empty array is in range.
\<close>

definition slider_inv :: "entry list \<Rightarrow> slider_page \<Rightarrow> bool" where
  "slider_inv images p \<longleftrightarrow>
     ((prev_listener p \<or> next_listener p \<or> pending p \<noteq> []) \<longrightarrow>
        sliderImage p \<noteq> None \<and> imageCaption p \<noteq> None) \<and>
     (pending p \<noteq> [] \<longrightarrow> images \<noteq> []) \<and>
     (images \<noteq> [] \<longrightarrow> valid_index images (currentIndex p))"

text \<open>
  A page on which initialization changed nothing but the console: the elements are as
  the page provided them, no listener is attached, no load is outstanding.
\<close>

definition left_inert :: "slider_dom \<Rightarrow> slider_page \<Rightarrow> bool" where
  "left_inert d s \<longleftrightarrow>
     sliderImage s = sliderImage d \<and> imageCaption s = imageCaption d \<and>
     prevButton s = prevButton d \<and> nextButton s = nextButton d \<and>
     \<not> prev_listener s \<and> \<not> next_listener s \<and> pending s = [] \<and> currentIndex s = 0"

text \<open>
  The disabled rendering of an empty entry list: image and buttons hidden, the
  fallback text in the caption element, whose own \<open>display\<close> is left as it was.
\<close>

definition disabled_rendering :: "slider_dom \<Rightarrow> slider_page \<Rightarrow> bool" where
  "disabled_rendering d s \<longleftrightarrow>
     hidden (sliderImage s) \<and> hidden (prevButton s) \<and> hidden (nextButton s) \<and>
     map_option el_textContent (imageCaption s) = Some ''No images to display.'' \<and>
     map_option el_display (imageCaption s) = map_option el_display (imageCaption d) \<and>
     pending s = [] \<and> currentIndex s = 0"

text \<open>
  What no handler changes: which listeners are attached and which elements exist.
\<close>

definition same_wiring :: "slider_page \<Rightarrow> slider_page \<Rightarrow> bool" where
  "same_wiring p q \<longleftrightarrow>
     prev_listener q = prev_listener p \<and> next_listener q = next_listener p \<and>
     (sliderImage q = None) = (sliderImage p = None) \<and>
     (imageCaption q = None) = (imageCaption p = None) \<and>
     (prevButton q = None) = (prevButton p = None) \<and>
     (nextButton q = None) = (nextButton p = None)"

text \<open>How the states of the two copies correspond after the same clicks.\<close>

definition same_cursor :: "slider_page \<Rightarrow> slider_page \<Rightarrow> bool" where
  "same_cursor p q \<longleftrightarrow> currentIndex q = currentIndex p \<and> same_wiring p q"

text \<open>The entry a commit of \<open>images[i]\<close> puts on show.\<close>

definition triple_of :: "entry list \<Rightarrow> int \<Rightarrow> string \<times> string \<times> string" where
  "triple_of images i =
     (entry_src (images ! nat i), caption (images ! nat i), caption (images ! nat i))"

section \<open>The fullscreen viewer\<close>

text \<open>
  What \<open>this.closest('.mcp-showcase-item')?.querySelector('.image-caption')\<close> finds
  for a clicked image: no enclosing showcase item (\<open>undefined\<close>), an item without a
  caption element (\<open>null\<close>), or the caption element.
\<close>

datatype nearby = NoShowcaseItem | NoItemCaption | ItemCaption element

text \<open>
  An element matched by the selector list, as it is when clicked. \<open>this_alt\<close> is
  \<open>None\<close> when the property is \<open>undefined\<close>. The DOM queries are the browser's;
  their result for the clicked element is part of the input.
\<close>

record clickable =
  this_src :: string
  this_alt :: "string option"
  this_nearby :: nearby

record viewer_dom =
  modal :: "element option"
  modalImg :: "element option"
  captionText :: "element option"
  closeBtn :: "element option"
  body_overflow :: string

record viewer_page = viewer_dom +
  img_onclick :: bool
  closeBtn_onclick :: bool
  modal_onclick :: bool
  keydown_listener :: bool

definition viewer_page_of :: "viewer_dom \<Rightarrow> viewer_page" where
  "viewer_page_of d =
     \<lparr>modal = modal d, modalImg = modalImg d, captionText = captionText d,
      closeBtn = closeBtn d, body_overflow = body_overflow d,
      img_onclick = False, closeBtn_onclick = False, modal_onclick = False,
      keydown_listener = False\<rparr>"

definition set_modal :: "(element \<Rightarrow> element) \<Rightarrow> viewer_page \<Rightarrow> viewer_page outcome" where
  "set_modal f p =
     (case modal p of
        None \<Rightarrow> Threw TypeError p
      | Some e \<Rightarrow> Completed (p\<lparr>modal := Some (f e)\<rparr>))"

definition set_modalImg :: "(element \<Rightarrow> element) \<Rightarrow> viewer_page \<Rightarrow> viewer_page outcome" where
  "set_modalImg f p =
     (case modalImg p of
        None \<Rightarrow> Threw TypeError p
      | Some e \<Rightarrow> Completed (p\<lparr>modalImg := Some (f e)\<rparr>))"

definition set_captionText :: "(element \<Rightarrow> element) \<Rightarrow> viewer_page \<Rightarrow> viewer_page outcome" where
  "set_captionText f p =
     (case captionText p of
        None \<Rightarrow> Threw TypeError p
      | Some e \<Rightarrow> Completed (p\<lparr>captionText := Some (f e)\<rparr>))"

definition set_body_overflow :: "string \<Rightarrow> viewer_page \<Rightarrow> viewer_page outcome" where
  "set_body_overflow v p = Completed (p\<lparr>body_overflow := v\<rparr>)"

text \<open>\<open>this.alt || ''\<close>: \<open>undefined\<close> and the empty string are both falsy.\<close>

definition alt_or_empty :: "string option \<Rightarrow> string" where
  "alt_or_empty a = (case a of None \<Rightarrow> '''' | Some s \<Rightarrow> if s = '''' then '''' else s)"

definition nearbyCaption :: "clickable \<Rightarrow> element option" where
  "nearbyCaption this =
     (case this_nearby this of
        NoShowcaseItem \<Rightarrow> None
      | NoItemCaption \<Rightarrow> None
      | ItemCaption e \<Rightarrow> Some e)"

definition captionContent :: "clickable \<Rightarrow> string" where
  "captionContent this =
     (let captionContent = alt_or_empty (this_alt this) in
      case nearbyCaption this of
        Some e \<Rightarrow> el_textContent e
      | None \<Rightarrow> captionContent)"

definition img_click :: "clickable \<Rightarrow> viewer_page \<Rightarrow> viewer_page outcome" where
  "img_click this =
     run_stmts
       [set_modal (\<lambda>e. e\<lparr>el_display := ''block''\<rparr>),
        set_modalImg (\<lambda>e. e\<lparr>el_src := this_src this\<rparr>),
        set_captionText (\<lambda>e. e\<lparr>el_textContent := captionContent this\<rparr>),
        set_body_overflow ''hidden'']"

text \<open>The two statements each of the three closing handlers repeats.\<close>

definition hide_modal :: "viewer_page \<Rightarrow> viewer_page outcome" where
  "hide_modal =
     run_stmts [set_modal (\<lambda>e. e\<lparr>el_display := ''none''\<rparr>), set_body_overflow ''auto'']"

definition closeBtn_click :: "viewer_page \<Rightarrow> viewer_page outcome" where
  "closeBtn_click = hide_modal"

text \<open>
  Where a click inside the modal landed: \<open>event.target === modal\<close> holds for the
  backdrop only.
\<close>

datatype click_target = Backdrop | ModalImage | OtherDescendant

definition modal_click :: "click_target \<Rightarrow> viewer_page \<Rightarrow> viewer_page outcome" where
  "modal_click target p = (if target = Backdrop then hide_modal p else Completed p)"

definition document_keydown :: "string \<Rightarrow> viewer_page \<Rightarrow> viewer_page outcome" where
  "document_keydown key p =
     (if key = ''Escape''
      then (case modal p of
              None \<Rightarrow> Threw TypeError p
            | Some m \<Rightarrow> if el_display m = ''block'' then hide_modal p else Completed p)
      else Completed p)"

definition setupImageFullscreen :: "viewer_dom \<Rightarrow> viewer_page outcome" where
  "setupImageFullscreen d =
     run_stmts
       [\<lambda>p. Completed (p\<lparr>img_onclick := True\<rparr>),
        \<lambda>p. if closeBtn p = None then Threw TypeError p
             else Completed (p\<lparr>closeBtn_onclick := True\<rparr>),
        \<lambda>p. if modal p = None then Threw TypeError p
             else Completed (p\<lparr>modal_onclick := True\<rparr>),
        \<lambda>p. Completed (p\<lparr>keydown_listener := True\<rparr>)]
       (viewer_page_of d)"

text \<open>
  The events the browser delivers: a click on a matched image, on the close control,
  somewhere inside the modal, and a key press.
\<close>

datatype viewer_event =
  ImageClick clickable | CloseClick | ModalClick click_target | KeyDown string

fun dispatch_viewer :: "viewer_event \<Rightarrow> viewer_page \<Rightarrow> viewer_page outcome" where
  "dispatch_viewer (ImageClick this) p =
     (if img_onclick p then img_click this p else Completed p)"
| "dispatch_viewer CloseClick p =
     (if closeBtn p \<noteq> None \<and> closeBtn_onclick p then closeBtn_click p else Completed p)"
| "dispatch_viewer (ModalClick target) p =
     (if modal p \<noteq> None \<and> modal_onclick p then modal_click target p else Completed p)"
| "dispatch_viewer (KeyDown key) p =
     (if keydown_listener p then document_keydown key p else Completed p)"

fun run_viewer :: "viewer_event list \<Rightarrow> viewer_page \<Rightarrow> viewer_page" where
  "run_viewer [] p = p"
| "run_viewer (ev # evs) p = run_viewer evs (state_of (dispatch_viewer ev p))"

subsection \<open>Vocabulary of the viewer's properties\<close>

text \<open>The modal is visible when the handlers' own test \<open>display === 'block'\<close> holds.\<close>

definition visible :: "viewer_page \<Rightarrow> bool" where
  "visible p = (case modal p of None \<Rightarrow> False | Some m \<Rightarrow> el_display m = ''block'')"

definition viewer_dom_complete :: "viewer_dom \<Rightarrow> bool" where
  "viewer_dom_complete d \<longleftrightarrow>
     modal d \<noteq> None \<and> modalImg d \<noteq> None \<and> captionText d \<noteq> None \<and> closeBtn d \<noteq> None"

text \<open>
  The caption as the specification words it: the text of the nearby caption element if
  there is one, otherwise the alt text, otherwise the empty string.
\<close>

definition spec_caption :: "clickable \<Rightarrow> string" where
  "spec_caption this =
     (case this_nearby this of
        ItemCaption e \<Rightarrow> el_textContent e
      | _ \<Rightarrow> (case this_alt this of Some a \<Rightarrow> a | None \<Rightarrow> ''''))"

text \<open>What no handler of the viewer changes: the handlers and the elements there are.\<close>

definition viewer_wiring :: "viewer_page \<Rightarrow> viewer_page \<Rightarrow> bool" where
  "viewer_wiring p q \<longleftrightarrow>
     img_onclick q = img_onclick p \<and> closeBtn_onclick q = closeBtn_onclick p \<and>
     modal_onclick q = modal_onclick p \<and> keydown_listener q = keydown_listener p \<and>
     (modal q = None) = (modal p = None) \<and> (modalImg q = None) = (modalImg p = None) \<and>
     (captionText q = None) = (captionText p = None) \<and> (closeBtn q = None) = (closeBtn p = None)"

text \<open>The \<open>keydown\<close> listener is added last, after the statements that need the modal.\<close>

definition viewer_inv :: "viewer_page \<Rightarrow> bool" where
  "viewer_inv p \<longleftrightarrow> (keydown_listener p \<longrightarrow> modal p \<noteq> None)"

definition viewer_ready :: "viewer_page \<Rightarrow> bool" where
  "viewer_ready p \<longleftrightarrow>
     modal p \<noteq> None \<and> modalImg p \<noteq> None \<and> captionText p \<noteq> None \<and> closeBtn p \<noteq> None \<and>
     img_onclick p \<and> closeBtn_onclick p \<and> modal_onclick p \<and> keydown_listener p"

definition modal_caption :: "viewer_page \<Rightarrow> string option" where
  "modal_caption p = map_option el_textContent (captionText p)"

definition modal_image :: "viewer_page \<Rightarrow> string option" where
  "modal_image p = map_option el_src (modalImg p)"

text \<open>Sample pages for the concrete instances below.\<close>

definition blank :: element where
  "blank = \<lparr>el_src = '''', el_alt = '''', el_textContent = '''', el_opacity = '''',
     el_display = ''''\<rparr>"

definition full_dom :: slider_dom where
  "full_dom = \<lparr>sliderImage = Some blank, imageCaption = Some blank,
     prevButton = Some blank, nextButton = Some blank\<rparr>"

definition no_caption_dom :: slider_dom where
  "no_caption_dom = \<lparr>sliderImage = Some blank, imageCaption = None,
     prevButton = Some blank, nextButton = Some blank\<rparr>"

definition full_viewer_dom :: viewer_dom where
  "full_viewer_dom = \<lparr>modal = Some blank, modalImg = Some blank, captionText = Some blank,
     closeBtn = Some blank, body_overflow = ''''\<rparr>"

definition bare_image :: clickable where
  "bare_image = \<lparr>this_src = ''assets/images/logo.png'', this_alt = None,
     this_nearby = NoShowcaseItem\<rparr>"

section \<open>Properties of the slider\<close>

subsection \<open>Running statements and handlers\<close>

lemma state_of_run_stmts_Cons [simp]:
  "state_of (run_stmts (f # fs) s) =
     (if threw (f s) then state_of (f s) else state_of (run_stmts fs (state_of (f s))))"
  by (cases "f s") simp_all

lemma threw_run_stmts_Cons [simp]:
  "threw (run_stmts (f # fs) s) \<longleftrightarrow> threw (f s) \<or> threw (run_stmts fs (state_of (f s)))"
  by (cases "f s") simp_all

declare run_stmts.simps(2) [simp del]

lemma outcome_eq_Completed: "r = Completed s \<longleftrightarrow> \<not> threw r \<and> state_of r = s"
  by (cases r) auto

lemma state_of_set_sliderImage [simp]:
  "state_of (set_sliderImage f p) = p\<lparr>sliderImage := map_option f (sliderImage p)\<rparr>"
  by (simp add: set_sliderImage_def split: option.splits)

lemma threw_set_sliderImage [simp]: "threw (set_sliderImage f p) \<longleftrightarrow> sliderImage p = None"
  by (simp add: set_sliderImage_def split: option.splits)

lemma state_of_set_imageCaption [simp]:
  "state_of (set_imageCaption f p) = p\<lparr>imageCaption := map_option f (imageCaption p)\<rparr>"
  by (simp add: set_imageCaption_def split: option.splits)

lemma threw_set_imageCaption [simp]: "threw (set_imageCaption f p) \<longleftrightarrow> imageCaption p = None"
  by (simp add: set_imageCaption_def split: option.splits)

lemma state_of_set_prevButton [simp]:
  "state_of (set_prevButton f p) = p\<lparr>prevButton := map_option f (prevButton p)\<rparr>"
  by (simp add: set_prevButton_def split: option.splits)

lemma threw_set_prevButton [simp]: "threw (set_prevButton f p) \<longleftrightarrow> prevButton p = None"
  by (simp add: set_prevButton_def split: option.splits)

lemma state_of_set_nextButton [simp]:
  "state_of (set_nextButton f p) = p\<lparr>nextButton := map_option f (nextButton p)\<rparr>"
  by (simp add: set_nextButton_def split: option.splits)

lemma threw_set_nextButton [simp]: "threw (set_nextButton f p) \<longleftrightarrow> nextButton p = None"
  by (simp add: set_nextButton_def split: option.splits)

lemma state_of_log_entry [simp]: "state_of (log_entry c p) = p\<lparr>console := console p @ [c]\<rparr>"
  by (simp add: log_entry_def)

lemma threw_log_entry [simp]: "\<not> threw (log_entry c p)"
  by (simp add: log_entry_def)

lemma state_of_with_current [simp]:
  "state_of (with_current images k p) =
     (case entry_at images (currentIndex p) of None \<Rightarrow> p | Some en \<Rightarrow> state_of (k en p))"
  by (simp add: with_current_def split: option.splits)

lemma threw_with_current [simp]:
  "threw (with_current images k p) \<longleftrightarrow>
     (case entry_at images (currentIndex p) of None \<Rightarrow> True | Some en \<Rightarrow> threw (k en p))"
  by (simp add: with_current_def split: option.splits)

lemma entry_at_valid [simp]:
  "valid_index images i \<Longrightarrow> entry_at images i = Some (images ! nat i)"
  by (simp add: entry_at_def valid_index_def)


lemma same_wiring_refl [simp]: "same_wiring p p"
  by (simp add: same_wiring_def)

lemma same_wiring_trans: "same_wiring p q \<Longrightarrow> same_wiring q r \<Longrightarrow> same_wiring p r"
  by (simp add: same_wiring_def)

lemma same_wiring_sym: "same_wiring p q \<Longrightarrow> same_wiring q p"
  by (simp add: same_wiring_def)

lemma wiring_updateSlider: "same_wiring p (state_of (updateSlider images p))"
  by (simp add: same_wiring_def updateSlider_def split: option.splits)

lemma wiring_updateSlider_sync: "same_wiring p (state_of (updateSlider_sync images p))"
  by (simp add: same_wiring_def updateSlider_sync_def split: option.splits)

lemma wiring_img_onload: "same_wiring p (state_of (img_onload images p))"
  by (simp add: same_wiring_def img_onload_def split: option.splits)

lemma wiring_img_onerror: "same_wiring p (state_of (img_onerror images p))"
  by (simp add: same_wiring_def img_onerror_def split: option.splits)

lemma wiring_settle: "same_wiring p (settle k p)"
  by (simp add: same_wiring_def settle_def)

lemma currentIndex_updateSlider [simp]:
  "currentIndex (state_of (updateSlider images p)) = currentIndex p"
  by (simp add: updateSlider_def split: option.splits)

lemma currentIndex_updateSlider_sync [simp]:
  "currentIndex (state_of (updateSlider_sync images p)) = currentIndex p"
  by (simp add: updateSlider_sync_def split: option.splits)

lemma currentIndex_img_onload [simp]:
  "currentIndex (state_of (img_onload images p)) = currentIndex p"
  by (simp add: img_onload_def split: option.splits)

lemma currentIndex_img_onerror [simp]:
  "currentIndex (state_of (img_onerror images p)) = currentIndex p"
  by (simp add: img_onerror_def split: option.splits)

lemma currentIndex_settle [simp]: "currentIndex (settle k p) = currentIndex p"
  by (simp add: settle_def)

lemma pending_img_onload [simp]: "pending (state_of (img_onload images p)) = pending p"
  by (simp add: img_onload_def split: option.splits)

lemma pending_img_onerror [simp]: "pending (state_of (img_onerror images p)) = pending p"
  by (simp add: img_onerror_def split: option.splits)

lemma pending_updateSlider:
  "pending (state_of (updateSlider images p)) =
     (if sliderImage p \<noteq> None \<and> valid_index images (currentIndex p)
      then pending p @ [entry_src (images ! nat (currentIndex p))] else pending p)"
  by (simp add: updateSlider_def entry_at_def valid_index_def)

lemma wiring_prevButton_click: "same_wiring p (state_of (prevButton_click images p))"
  using wiring_updateSlider
    [of "p\<lparr>currentIndex :=
      (if currentIndex p > 0 then currentIndex p - 1 else int (length images) - 1)\<rparr>" images]
  by (simp add: prevButton_click_def same_wiring_def)

lemma wiring_nextButton_click: "same_wiring p (state_of (nextButton_click images p))"
  using wiring_updateSlider
    [of "p\<lparr>currentIndex :=
      (if currentIndex p < int (length images) - 1 then currentIndex p + 1 else 0)\<rparr>" images]
  by (simp add: nextButton_click_def same_wiring_def)

lemma wiring_prevButton_click_sync: "same_wiring p (state_of (prevButton_click_sync images p))"
  using wiring_updateSlider_sync
    [of "p\<lparr>currentIndex :=
      (if currentIndex p > 0 then currentIndex p - 1 else int (length images) - 1)\<rparr>" images]
  by (simp add: prevButton_click_sync_def same_wiring_def)

lemma wiring_nextButton_click_sync: "same_wiring p (state_of (nextButton_click_sync images p))"
  using wiring_updateSlider_sync
    [of "p\<lparr>currentIndex :=
      (if currentIndex p < int (length images) - 1 then currentIndex p + 1 else 0)\<rparr>" images]
  by (simp add: nextButton_click_sync_def same_wiring_def)

lemma wiring_dispatch: "same_wiring p (state_of (dispatch images ev p))"
proof (cases ev)
  case (Click c)
  then show ?thesis
    by (cases c) (simp_all add: wiring_prevButton_click wiring_nextButton_click)
next
  case (LoadSucceeds k)
  then show ?thesis
    using same_wiring_trans [OF wiring_settle wiring_img_onload] by simp
next
  case (LoadFails k)
  then show ?thesis
    using same_wiring_trans [OF wiring_settle wiring_img_onerror] by simp
qed

lemma wiring_dispatch_sync: "same_wiring p (state_of (dispatch_sync images c p))"
  by (cases c) (simp_all add: wiring_prevButton_click_sync wiring_nextButton_click_sync)

lemma currentIndex_prevButton_click:
  "currentIndex (state_of (prevButton_click images p)) =
     (if currentIndex p > 0 then currentIndex p - 1 else int (length images) - 1)"
  by (simp add: prevButton_click_def)

lemma currentIndex_nextButton_click:
  "currentIndex (state_of (nextButton_click images p)) =
     (if currentIndex p < int (length images) - 1 then currentIndex p + 1 else 0)"
  by (simp add: nextButton_click_def)

lemma currentIndex_prevButton_click_sync:
  "currentIndex (state_of (prevButton_click_sync images p)) =
     (if currentIndex p > 0 then currentIndex p - 1 else int (length images) - 1)"
  by (simp add: prevButton_click_sync_def)

lemma currentIndex_nextButton_click_sync:
  "currentIndex (state_of (nextButton_click_sync images p)) =
     (if currentIndex p < int (length images) - 1 then currentIndex p + 1 else 0)"
  by (simp add: nextButton_click_sync_def)

lemma currentIndex_dispatch:
  "currentIndex (state_of (dispatch images ev p)) =
     (case ev of
        Click Prev \<Rightarrow>
          if prevButton p \<noteq> None \<and> prev_listener p
          then (if currentIndex p > 0 then currentIndex p - 1 else int (length images) - 1)
          else currentIndex p
      | Click Next \<Rightarrow>
          if nextButton p \<noteq> None \<and> next_listener p
          then (if currentIndex p < int (length images) - 1 then currentIndex p + 1 else 0)
          else currentIndex p
      | _ \<Rightarrow> currentIndex p)"
proof (cases ev)
  case (Click c)
  then show ?thesis
    by (cases c) (simp_all add: currentIndex_prevButton_click currentIndex_nextButton_click)
next
  case (LoadSucceeds k)
  then show ?thesis by simp
next
  case (LoadFails k)
  then show ?thesis by simp
qed

lemma currentIndex_dispatch_sync:
  "currentIndex (state_of (dispatch_sync images c p)) =
     (case c of
        Prev \<Rightarrow>
          if prevButton p \<noteq> None \<and> prev_listener p
          then (if currentIndex p > 0 then currentIndex p - 1 else int (length images) - 1)
          else currentIndex p
      | Next \<Rightarrow>
          if nextButton p \<noteq> None \<and> next_listener p
          then (if currentIndex p < int (length images) - 1 then currentIndex p + 1 else 0)
          else currentIndex p)"
  by (cases c)
    (simp_all add: currentIndex_prevButton_click_sync currentIndex_nextButton_click_sync)

lemma valid_index_dispatch:
  assumes "images \<noteq> []" and "valid_index images (currentIndex p)"
  shows "valid_index images (currentIndex (state_of (dispatch images ev p)))"
  using assms unfolding currentIndex_dispatch valid_index_def
  by (auto split: slider_event.splits click.splits)

lemma valid_index_dispatch_sync:
  assumes "images \<noteq> []" and "valid_index images (currentIndex p)"
  shows "valid_index images (currentIndex (state_of (dispatch_sync images c p)))"
  using assms unfolding currentIndex_dispatch_sync valid_index_def
  by (auto split: click.splits)

lemma valid_index_run:
  "images \<noteq> [] \<Longrightarrow> valid_index images (currentIndex p) \<Longrightarrow>
     valid_index images (currentIndex (run images evs p))"
  by (induction evs arbitrary: p) (simp_all add: valid_index_dispatch)

lemma valid_index_run_sync:
  "images \<noteq> [] \<Longrightarrow> valid_index images (currentIndex p) \<Longrightarrow>
     valid_index images (currentIndex (run_sync images cs p))"
  by (induction cs arbitrary: p) (simp_all add: valid_index_dispatch_sync)

subsection \<open>What initialization leaves behind\<close>

lemma init_missing:
  "\<not> complete_dom d \<Longrightarrow>
     initializeImageSlider images d =
       Completed ((page_of d)\<lparr>console := [ConsoleLog ''Image slider elements:'',
         ConsoleError ''Image slider elements not found'']\<rparr>)"
  unfolding outcome_eq_Completed
  by (simp add: initializeImageSlider_def elements_missing_def complete_dom_def page_of_def)

lemma init_sync_missing:
  "\<not> complete_dom d \<Longrightarrow> initializeImageSlider_sync images d = Completed (page_of d)"
  unfolding outcome_eq_Completed
  by (simp add: initializeImageSlider_sync_def elements_missing_def complete_dom_def page_of_def)

lemma complete_domE:
  assumes "complete_dom d"
  obtains im cap pb nb where "sliderImage d = Some im" and "imageCaption d = Some cap"
    and "prevButton d = Some pb" and "nextButton d = Some nb"
  using assms unfolding complete_dom_def by auto

lemma init_empty:
  assumes "sliderImage d = Some im" and "imageCaption d = Some cap"
    and "prevButton d = Some pb" and "nextButton d = Some nb"
  shows "initializeImageSlider [] d =
       Completed
         \<lparr>sliderImage = Some (im\<lparr>el_display := ''none''\<rparr>),
          imageCaption = Some (cap\<lparr>el_textContent := ''No images to display.''\<rparr>),
          prevButton = Some (pb\<lparr>el_display := ''none''\<rparr>),
          nextButton = Some (nb\<lparr>el_display := ''none''\<rparr>),
          currentIndex = 0, prev_listener = True, next_listener = True,
          pending = [], console = [ConsoleLog ''Image slider elements:'']\<rparr>"
  unfolding outcome_eq_Completed using assms
  by (simp add: initializeImageSlider_def elements_missing_def page_of_def)

lemma init_sync_empty:
  assumes "sliderImage d = Some im" and "imageCaption d = Some cap"
    and "prevButton d = Some pb" and "nextButton d = Some nb"
  shows "initializeImageSlider_sync [] d =
       Completed
         \<lparr>sliderImage = Some (im\<lparr>el_display := ''none''\<rparr>),
          imageCaption = Some (cap\<lparr>el_textContent := ''No images to display.''\<rparr>),
          prevButton = Some (pb\<lparr>el_display := ''none''\<rparr>),
          nextButton = Some (nb\<lparr>el_display := ''none''\<rparr>),
          currentIndex = 0, prev_listener = True, next_listener = True,
          pending = [], console = []\<rparr>"
  unfolding outcome_eq_Completed using assms
  by (simp add: initializeImageSlider_sync_def elements_missing_def page_of_def)

lemma init_nonempty:
  assumes "sliderImage d = Some im" and "imageCaption d = Some cap"
    and "prevButton d = Some pb" and "nextButton d = Some nb" and "images \<noteq> []"
  shows "initializeImageSlider images d =
       Completed
         \<lparr>sliderImage = Some (im\<lparr>el_src := entry_src (images ! 0),
            el_alt := caption (images ! 0), el_opacity := ''0.5''\<rparr>),
          imageCaption = Some (cap\<lparr>el_textContent := caption (images ! 0)\<rparr>),
          prevButton = Some pb, nextButton = Some nb,
          currentIndex = 0, prev_listener = True, next_listener = True,
          pending = [entry_src (images ! 0)],
          console = [ConsoleLog ''Image slider elements:'']\<rparr>"
  unfolding outcome_eq_Completed using assms
  by (simp add: initializeImageSlider_def elements_missing_def page_of_def
      updateSlider_def entry_at_def)

lemma init_sync_nonempty:
  assumes "sliderImage d = Some im" and "imageCaption d = Some cap"
    and "prevButton d = Some pb" and "nextButton d = Some nb" and "images \<noteq> []"
  shows "initializeImageSlider_sync images d =
       Completed
         \<lparr>sliderImage = Some (im\<lparr>el_src := entry_src (images ! 0),
            el_alt := caption (images ! 0)\<rparr>),
          imageCaption = Some (cap\<lparr>el_textContent := caption (images ! 0)\<rparr>),
          prevButton = Some pb, nextButton = Some nb,
          currentIndex = 0, prev_listener = True, next_listener = True,
          pending = [], console = []\<rparr>"
  unfolding outcome_eq_Completed using assms
  by (simp add: initializeImageSlider_sync_def elements_missing_def page_of_def
      updateSlider_sync_def entry_at_def)

subsection \<open>The cursor stays in range\<close>

lemma valid_index_init: "images \<noteq> [] \<Longrightarrow> valid_index images 0"
  by (simp add: valid_index_def)

lemma currentIndex_init [simp]: "currentIndex (state_of (initializeImageSlider images d)) = 0"
proof (cases "complete_dom d")
  case False
  then show ?thesis by (simp add: init_missing page_of_def)
next
  case True
  then obtain im cap pb nb where el: "sliderImage d = Some im" "imageCaption d = Some cap"
      "prevButton d = Some pb" "nextButton d = Some nb"
    by (rule complete_domE)
  show ?thesis
    by (cases "images = []") (simp_all add: init_empty [OF el] init_nonempty [OF el])
qed

lemma currentIndex_init_sync [simp]:
  "currentIndex (state_of (initializeImageSlider_sync images d)) = 0"
proof (cases "complete_dom d")
  case False
  then show ?thesis by (simp add: init_sync_missing page_of_def)
next
  case True
  then obtain im cap pb nb where el: "sliderImage d = Some im" "imageCaption d = Some cap"
      "prevButton d = Some pb" "nextButton d = Some nb"
    by (rule complete_domE)
  show ?thesis
    by (cases "images = []") (simp_all add: init_sync_empty [OF el] init_sync_nonempty [OF el])
qed

text \<open>
  Claim C1. For a non-empty entry list, after any finite sequence of button clicks from
  the initial cursor 0, \<open>currentIndex\<close> lies in \<open>0 \<le> currentIndex < n\<close>. It holds
  in both copies of the slider, whatever elements the page has, and in the
  asynchronous copy also when loads succeed or fail between the clicks.
\<close>

theorem currentIndex_in_range:
  assumes "images \<noteq> []"
  shows "0 \<le> currentIndex (run images evs (state_of (initializeImageSlider images d))) \<and>
     currentIndex (run images evs (state_of (initializeImageSlider images d)))
       < int (length images) \<and>
     0 \<le> currentIndex (run_sync images cs (state_of (initializeImageSlider_sync images d))) \<and>
     currentIndex (run_sync images cs (state_of (initializeImageSlider_sync images d)))
       < int (length images)"
proof -
  from assms have start: "valid_index images 0" by (rule valid_index_init)
  have "valid_index images
      (currentIndex (run images evs (state_of (initializeImageSlider images d))))"
    using assms start by (intro valid_index_run) simp_all
  moreover have "valid_index images
      (currentIndex (run_sync images cs (state_of (initializeImageSlider_sync images d))))"
    using assms start by (intro valid_index_run_sync) simp_all
  ultimately show ?thesis by (simp add: valid_index_def)
qed

text \<open>An instance of C1 on the site's own six entries.\<close>

theorem currentIndex_in_range_witness:
  "site_images \<noteq> [] \<and>
   0 \<le> currentIndex (run site_images [Click Prev, LoadSucceeds 0, Click Next]
       (state_of (initializeImageSlider site_images full_dom))) \<and>
   currentIndex (run site_images [Click Prev, LoadSucceeds 0, Click Next]
       (state_of (initializeImageSlider site_images full_dom))) < int (length site_images) \<and>
   0 \<le> currentIndex (run_sync site_images [Prev, Prev]
       (state_of (initializeImageSlider_sync site_images full_dom))) \<and>
   currentIndex (run_sync site_images [Prev, Prev]
       (state_of (initializeImageSlider_sync site_images full_dom))) < int (length site_images)"
proof -
  have ne: "site_images \<noteq> []" by (simp add: site_images_def)
  from currentIndex_in_range [OF ne] ne show ?thesis by blast
qed

subsection \<open>A full round of clicks returns to the start\<close>

lemma next_wrap_mod:
  assumes "0 \<le> x" and "x < n"
  shows "(if x < n - 1 then x + 1 else 0) = (x + 1) mod (n::int)"
proof (cases "x < n - 1")
  case True
  with assms show ?thesis by simp
next
  case False
  with assms have "x + 1 = n" by simp
  with False show ?thesis by simp
qed

lemma prev_wrap_mod:
  assumes "0 \<le> x" and "x < n"
  shows "(if x > 0 then x - 1 else n - 1) = (x - 1) mod (n::int)"
proof (cases "x > 0")
  case True
  with assms show ?thesis by simp
next
  case False
  with assms have x0: "x = 0" by simp
  from assms x0 have "0 < n" by simp
  then have "(- 1) mod n = n - 1" by (rule zmod_minus1)
  with x0 show ?thesis by simp
qed

lemma goNext_funpow:
  assumes "images \<noteq> []" and "valid_index images (currentIndex p)"
  shows "currentIndex ((goNext images ^^ k) p) = (currentIndex p + int k) mod int (length images)"
proof (induction k)
  case 0
  from assms show ?case by (simp add: valid_index_def)
next
  case (Suc k)
  let ?n = "int (length images)"
  let ?x = "(currentIndex p + int k) mod ?n"
  let ?q = "(goNext images ^^ k) p"
  from assms have n: "0 < ?n" by simp
  then have x: "0 \<le> ?x" "?x < ?n" by simp_all
  have "currentIndex ((goNext images ^^ Suc k) p) = currentIndex (goNext images ?q)"
    by simp
  also have "\<dots> = (if currentIndex ?q < ?n - 1 then currentIndex ?q + 1 else 0)"
    unfolding goNext_def by (rule currentIndex_nextButton_click)
  also have "\<dots> = (if ?x < ?n - 1 then ?x + 1 else 0)"
    unfolding Suc.IH ..
  also have "\<dots> = (?x + 1) mod ?n" using x by (rule next_wrap_mod)
  also have "\<dots> = (currentIndex p + int k + 1) mod ?n"
    by (rule mod_add_left_eq)
  also have "currentIndex p + int k + 1 = currentIndex p + int (Suc k)" by simp
  finally show ?case .
qed

lemma goPrevious_funpow:
  assumes "images \<noteq> []" and "valid_index images (currentIndex p)"
  shows "currentIndex ((goPrevious images ^^ k) p) = (currentIndex p - int k) mod int (length images)"
proof (induction k)
  case 0
  from assms show ?case by (simp add: valid_index_def)
next
  case (Suc k)
  let ?n = "int (length images)"
  let ?x = "(currentIndex p - int k) mod ?n"
  let ?q = "(goPrevious images ^^ k) p"
  from assms have n: "0 < ?n" by simp
  then have x: "0 \<le> ?x" "?x < ?n" by simp_all
  have "currentIndex ((goPrevious images ^^ Suc k) p) = currentIndex (goPrevious images ?q)"
    by simp
  also have "\<dots> = (if currentIndex ?q > 0 then currentIndex ?q - 1 else ?n - 1)"
    unfolding goPrevious_def by (rule currentIndex_prevButton_click)
  also have "\<dots> = (if ?x > 0 then ?x - 1 else ?n - 1)"
    unfolding Suc.IH ..
  also have "\<dots> = (?x - 1) mod ?n" using x by (rule prev_wrap_mod)
  also have "\<dots> = (currentIndex p - int k - 1) mod ?n"
    by (rule mod_diff_left_eq)
  also have "currentIndex p - int k - 1 = currentIndex p - int (Suc k)" by simp
  finally show ?case .
qed

text \<open>
  Claim C3. For a non-empty entry list of length \<open>n\<close> and every starting index in
  range, \<open>n\<close> clicks on the next button bring \<open>currentIndex\<close> back to where it
  started, and so do \<open>n\<close> clicks on the previous button.
\<close>

theorem full_cycle_returns:
  assumes "images \<noteq> []" and "0 \<le> currentIndex p" and "currentIndex p < int (length images)"
  shows "currentIndex ((goNext images ^^ length images) p) = currentIndex p \<and>
         currentIndex ((goPrevious images ^^ length images) p) = currentIndex p"
proof -
  from assms have v: "valid_index images (currentIndex p)" by (simp add: valid_index_def)
  have "currentIndex ((goNext images ^^ length images) p) =
      (currentIndex p + int (length images)) mod int (length images)"
    using assms(1) v by (rule goNext_funpow)
  moreover have "currentIndex ((goPrevious images ^^ length images) p) =
      (currentIndex p - int (length images)) mod int (length images)"
    using assms(1) v by (rule goPrevious_funpow)
  ultimately show ?thesis using assms(2,3) by simp
qed

text \<open>An instance of C3: six clicks from index 4 on the site's six entries.\<close>

theorem full_cycle_returns_witness:
  "site_images \<noteq> [] \<and>
   0 \<le> currentIndex ((page_of full_dom)\<lparr>currentIndex := 4\<rparr>) \<and>
   currentIndex ((page_of full_dom)\<lparr>currentIndex := 4\<rparr>) < int (length site_images) \<and>
   currentIndex ((goNext site_images ^^ length site_images)
       ((page_of full_dom)\<lparr>currentIndex := 4\<rparr>)) = 4 \<and>
   currentIndex ((goPrevious site_images ^^ length site_images)
       ((page_of full_dom)\<lparr>currentIndex := 4\<rparr>)) = 4"
proof -
  have ne: "site_images \<noteq> []" by (simp add: site_images_def)
  have lo: "0 \<le> currentIndex ((page_of full_dom)\<lparr>currentIndex := 4\<rparr>)" by simp
  have hi: "currentIndex ((page_of full_dom)\<lparr>currentIndex := 4\<rparr>) < int (length site_images)"
    by (simp add: site_images_def)
  from full_cycle_returns [OF ne lo hi] ne lo hi show ?thesis by simp
qed

subsection \<open>Outstanding loads\<close>

lemma img_onload_ready:
  assumes "sliderImage q = Some im" and "imageCaption q = Some cap"
    and "valid_index images (currentIndex q)"
  shows "img_onload images q =
     Completed (q\<lparr>sliderImage := Some (im\<lparr>el_src := entry_src (images ! nat (currentIndex q)),
         el_alt := caption (images ! nat (currentIndex q)), el_opacity := ''1''\<rparr>),
       imageCaption := Some (cap\<lparr>el_textContent := caption (images ! nat (currentIndex q))\<rparr>)\<rparr>)"
  unfolding outcome_eq_Completed using assms by (simp add: img_onload_def)

lemma img_onerror_ready:
  assumes "sliderImage q = Some im" and "imageCaption q = Some cap"
    and "valid_index images (currentIndex q)"
  shows "img_onerror images q =
     Completed (q\<lparr>sliderImage := Some (im\<lparr>el_src := '''', el_alt := ''Image failed to load'',
         el_opacity := ''1''\<rparr>),
       imageCaption := Some (cap\<lparr>el_textContent := ''Image failed to load''\<rparr>),
       console := console q @
         [ConsoleError (''Failed to load image: '' @ entry_src (images ! nat (currentIndex q)))]\<rparr>)"
  unfolding outcome_eq_Completed using assms by (simp add: img_onerror_def)

lemma updateSlider_ready:
  assumes "sliderImage q = Some im" and "valid_index images (currentIndex q)"
  shows "updateSlider images q =
     Completed (q\<lparr>sliderImage := Some (im\<lparr>el_opacity := ''0.5''\<rparr>),
       pending := pending q @ [entry_src (images ! nat (currentIndex q))]\<rparr>)"
  unfolding outcome_eq_Completed using assms by (simp add: updateSlider_def)

lemma updateSlider_sync_ready:
  assumes "sliderImage q = Some im" and "imageCaption q = Some cap"
    and "valid_index images (currentIndex q)"
  shows "updateSlider_sync images q =
     Completed (q\<lparr>sliderImage := Some (im\<lparr>el_src := entry_src (images ! nat (currentIndex q)),
         el_alt := caption (images ! nat (currentIndex q))\<rparr>),
       imageCaption := Some (cap\<lparr>el_textContent := caption (images ! nat (currentIndex q))\<rparr>)\<rparr>)"
  unfolding outcome_eq_Completed using assms by (simp add: updateSlider_sync_def)

lemma slider_inv_init: "slider_inv images (state_of (initializeImageSlider images d))"
proof (cases "complete_dom d")
  case False
  then show ?thesis by (simp add: init_missing page_of_def slider_inv_def valid_index_def)
next
  case True
  then obtain im cap pb nb where el: "sliderImage d = Some im" "imageCaption d = Some cap"
      "prevButton d = Some pb" "nextButton d = Some nb"
    by (rule complete_domE)
  show ?thesis
    by (cases "images = []")
      (simp_all add: init_empty [OF el] init_nonempty [OF el] slider_inv_def valid_index_def)
qed

lemma pending_click_empty:
  "pending (state_of (prevButton_click [] p)) = pending p"
  "pending (state_of (nextButton_click [] p)) = pending p"
  by (simp_all add: prevButton_click_def nextButton_click_def pending_updateSlider valid_index_def)

lemma pending_dispatch_empty: "pending p = [] \<Longrightarrow> pending (state_of (dispatch [] ev p)) = []"
proof (cases ev)
  case (Click c)
  assume "pending p = []"
  with Click show ?thesis by (cases c) (simp_all add: pending_click_empty)
qed simp_all

lemma dispatch_inert:
  assumes "\<not> prev_listener p" and "\<not> next_listener p" and "pending p = []"
  shows "dispatch images ev p = Completed p"
proof (cases ev)
  case (Click c)
  with assms show ?thesis by (cases c) simp_all
next
  case (LoadSucceeds k)
  with assms show ?thesis by simp
next
  case (LoadFails k)
  with assms show ?thesis by simp
qed

lemma run_inert:
  assumes "\<not> prev_listener p" and "\<not> next_listener p" and "pending p = []"
  shows "run images evs p = p"
  by (induction evs) (simp_all add: dispatch_inert [OF assms])

lemma dispatch_sync_inert:
  assumes "\<not> prev_listener p" and "\<not> next_listener p"
  shows "dispatch_sync images c p = Completed p"
  using assms by (cases c) simp_all

lemma run_sync_inert:
  assumes "\<not> prev_listener p" and "\<not> next_listener p"
  shows "run_sync images cs p = p"
  by (induction cs) (simp_all add: dispatch_sync_inert [OF assms])

lemma slider_inv_dispatch:
  assumes "slider_inv images p"
  shows "slider_inv images (state_of (dispatch images ev p))"
proof -
  let ?p' = "state_of (dispatch images ev p)"
  have w: "same_wiring p ?p'" by (rule wiring_dispatch)
  have idx: "images \<noteq> [] \<longrightarrow> valid_index images (currentIndex ?p')"
    using assms valid_index_dispatch [of images p ev] by (simp add: slider_inv_def)
  have pend: "pending ?p' \<noteq> [] \<longrightarrow> images \<noteq> []"
    using assms pending_dispatch_empty [of p ev] by (auto simp: slider_inv_def)
  have els: "sliderImage ?p' \<noteq> None \<and> imageCaption ?p' \<noteq> None"
    if "prev_listener ?p' \<or> next_listener ?p' \<or> pending ?p' \<noteq> []"
  proof (cases "prev_listener p \<or> next_listener p \<or> pending p \<noteq> []")
    case True
    with assms w show ?thesis by (simp add: slider_inv_def same_wiring_def)
  next
    case False
    then have "dispatch images ev p = Completed p"
      by (intro dispatch_inert) simp_all
    with that False show ?thesis by simp
  qed
  from idx pend els show ?thesis unfolding slider_inv_def by blast
qed

lemma slider_inv_run: "slider_inv images p \<Longrightarrow> slider_inv images (run images evs p)"
  by (induction evs arbitrary: p) (simp_all add: slider_inv_dispatch)

lemma reachable_pending:
  assumes "k < length (pending (run images evs (state_of (initializeImageSlider images d))))"
  obtains im cap where
    "sliderImage (run images evs (state_of (initializeImageSlider images d))) = Some im"
    "imageCaption (run images evs (state_of (initializeImageSlider images d))) = Some cap"
    "valid_index images
       (currentIndex (run images evs (state_of (initializeImageSlider images d))))"
proof -
  let ?p = "run images evs (state_of (initializeImageSlider images d))"
  have "slider_inv images ?p" by (intro slider_inv_run slider_inv_init)
  moreover from assms have "pending ?p \<noteq> []" by auto
  ultimately have "sliderImage ?p \<noteq> None" "imageCaption ?p \<noteq> None"
    "valid_index images (currentIndex ?p)"
    by (simp_all add: slider_inv_def)
  with that show thesis by auto
qed

lemma shown_settle [simp]: "shown (settle k p) = shown p"
  by (simp add: shown_def settle_def)

lemma load_succeeds_at:
  assumes "sliderImage p = Some im" and "imageCaption p = Some cap"
    and "valid_index images (currentIndex p)" and "k < length (pending p)"
  shows "\<not> threw (dispatch images (LoadSucceeds k) p)"
    and "shown (state_of (dispatch images (LoadSucceeds k) p)) =
       Some (triple_of images (currentIndex p))"
    and "opacity_of (state_of (dispatch images (LoadSucceeds k) p)) = Some ''1''"
proof -
  have q: "sliderImage (settle k p) = Some im" "imageCaption (settle k p) = Some cap"
    "valid_index images (currentIndex (settle k p))"
    using assms by (simp_all add: settle_def)
  from assms(4) have d: "dispatch images (LoadSucceeds k) p = img_onload images (settle k p)"
    by simp
  show "\<not> threw (dispatch images (LoadSucceeds k) p)"
    unfolding d img_onload_ready [OF q] by simp
  show "shown (state_of (dispatch images (LoadSucceeds k) p)) =
       Some (triple_of images (currentIndex p))"
    unfolding d img_onload_ready [OF q] by (simp add: shown_def triple_of_def)
  show "opacity_of (state_of (dispatch images (LoadSucceeds k) p)) = Some ''1''"
    unfolding d img_onload_ready [OF q] by (simp add: opacity_of_def)
qed

lemma load_fails_at:
  assumes "sliderImage p = Some im" and "imageCaption p = Some cap"
    and "valid_index images (currentIndex p)" and "k < length (pending p)"
  shows "\<not> threw (dispatch images (LoadFails k) p)"
    and "shown (state_of (dispatch images (LoadFails k) p)) =
       Some ('''', ''Image failed to load'', ''Image failed to load'')"
    and "opacity_of (state_of (dispatch images (LoadFails k) p)) = Some ''1''"
proof -
  have q: "sliderImage (settle k p) = Some im" "imageCaption (settle k p) = Some cap"
    "valid_index images (currentIndex (settle k p))"
    using assms by (simp_all add: settle_def)
  from assms(4) have d: "dispatch images (LoadFails k) p = img_onerror images (settle k p)"
    by simp
  show "\<not> threw (dispatch images (LoadFails k) p)"
    unfolding d img_onerror_ready [OF q] by simp
  show "shown (state_of (dispatch images (LoadFails k) p)) =
       Some ('''', ''Image failed to load'', ''Image failed to load'')"
    unfolding d img_onerror_ready [OF q] by (simp add: shown_def)
  show "opacity_of (state_of (dispatch images (LoadFails k) p)) = Some ''1''"
    unfolding d img_onerror_ready [OF q] by (simp add: opacity_of_def)
qed

text \<open>
  Claim C5. In every state reached from initialization, when any outstanding pre-load
  fails, the handler completes and commits the fixed error triple: empty image source,
  alt text "Image failed to load" and caption text "Image failed to load", whichever
  entry the load was requested for. The opacity returns to \<open>1\<close>.
\<close>

theorem load_failure_commits_error_triple:
  assumes "p = run images evs (state_of (initializeImageSlider images d))"
    and "k < length (pending p)"
  shows "\<not> threw (dispatch images (LoadFails k) p) \<and>
     shown (state_of (dispatch images (LoadFails k) p)) =
       Some ('''', ''Image failed to load'', ''Image failed to load'') \<and>
     opacity_of (state_of (dispatch images (LoadFails k) p)) = Some ''1''"
proof -
  from assms obtain im cap where "sliderImage p = Some im" "imageCaption p = Some cap"
    "valid_index images (currentIndex p)"
    using reachable_pending [of k images evs d] by auto
  from load_fails_at [OF this assms(2)] show ?thesis by simp
qed

lemma complete_full_dom: "complete_dom full_dom"
  by (simp add: complete_dom_def full_dom_def)

lemma site_images_nonempty: "site_images \<noteq> []"
  by (simp add: site_images_def)

lemma init_wired:
  assumes "complete_dom d"
  shows "prev_listener (state_of (initializeImageSlider images d))"
    and "next_listener (state_of (initializeImageSlider images d))"
    and "sliderImage (state_of (initializeImageSlider images d)) \<noteq> None"
    and "imageCaption (state_of (initializeImageSlider images d)) \<noteq> None"
    and "prevButton (state_of (initializeImageSlider images d)) \<noteq> None"
    and "nextButton (state_of (initializeImageSlider images d)) \<noteq> None"
proof -
  from assms obtain im cap pb nb where el: "sliderImage d = Some im" "imageCaption d = Some cap"
      "prevButton d = Some pb" "nextButton d = Some nb"
    by (rule complete_domE)
  show "prev_listener (state_of (initializeImageSlider images d))"
    by (cases "images = []") (simp_all add: init_empty [OF el] init_nonempty [OF el])
  show "next_listener (state_of (initializeImageSlider images d))"
    by (cases "images = []") (simp_all add: init_empty [OF el] init_nonempty [OF el])
  show "sliderImage (state_of (initializeImageSlider images d)) \<noteq> None"
    by (cases "images = []") (simp_all add: init_empty [OF el] init_nonempty [OF el])
  show "imageCaption (state_of (initializeImageSlider images d)) \<noteq> None"
    by (cases "images = []") (simp_all add: init_empty [OF el] init_nonempty [OF el])
  show "prevButton (state_of (initializeImageSlider images d)) \<noteq> None"
    by (cases "images = []") (simp_all add: init_empty [OF el] init_nonempty [OF el])
  show "nextButton (state_of (initializeImageSlider images d)) \<noteq> None"
    by (cases "images = []") (simp_all add: init_empty [OF el] init_nonempty [OF el])
qed

lemma init_pending:
  assumes "complete_dom d" and "images \<noteq> []"
  shows "pending (state_of (initializeImageSlider images d)) = [entry_src (images ! 0)]"
proof -
  from assms(1) obtain im cap pb nb where el: "sliderImage d = Some im"
      "imageCaption d = Some cap" "prevButton d = Some pb" "nextButton d = Some nb"
    by (rule complete_domE)
  from assms(2) show ?thesis by (simp add: init_nonempty [OF el])
qed

lemma wiring_run: "same_wiring p (run images evs p)"
proof (induction evs arbitrary: p)
  case Nil
  show ?case by simp
next
  case (Cons ev evs)
  from same_wiring_trans [OF wiring_dispatch Cons.IH] show ?case by simp
qed

lemma reachable_wired:
  assumes "complete_dom d"
  shows "prev_listener (run images evs (state_of (initializeImageSlider images d)))"
    and "next_listener (run images evs (state_of (initializeImageSlider images d)))"
    and "sliderImage (run images evs (state_of (initializeImageSlider images d))) \<noteq> None"
    and "imageCaption (run images evs (state_of (initializeImageSlider images d))) \<noteq> None"
    and "prevButton (run images evs (state_of (initializeImageSlider images d))) \<noteq> None"
    and "nextButton (run images evs (state_of (initializeImageSlider images d))) \<noteq> None"
  using init_wired [OF assms, of images]
    wiring_run [of "state_of (initializeImageSlider images d)" images evs]
  by (simp_all add: same_wiring_def)

lemma reachable_valid_index:
  "images \<noteq> [] \<Longrightarrow>
     valid_index images (currentIndex (run images evs (state_of (initializeImageSlider images d))))"
  by (intro valid_index_run) (simp_all add: valid_index_def)

text \<open>A delivered click starts the load of the entry at the cursor it moved to.\<close>

lemma pending_prevButton_click:
  assumes "sliderImage p \<noteq> None" and "images \<noteq> []" and "valid_index images (currentIndex p)"
  shows "pending (state_of (prevButton_click images p)) =
     pending p @ [entry_src (images ! nat (currentIndex (state_of (prevButton_click images p))))]"
  unfolding currentIndex_prevButton_click using assms
  by (auto simp: prevButton_click_def pending_updateSlider valid_index_def)

lemma pending_nextButton_click:
  assumes "sliderImage p \<noteq> None" and "images \<noteq> []" and "valid_index images (currentIndex p)"
  shows "pending (state_of (nextButton_click images p)) =
     pending p @ [entry_src (images ! nat (currentIndex (state_of (nextButton_click images p))))]"
  unfolding currentIndex_nextButton_click using assms
  by (auto simp: nextButton_click_def pending_updateSlider valid_index_def)

lemma pending_click:
  assumes "prev_listener p" and "next_listener p" and "prevButton p \<noteq> None"
    and "nextButton p \<noteq> None" and "sliderImage p \<noteq> None"
    and "images \<noteq> []" and "valid_index images (currentIndex p)"
  shows "pending (state_of (dispatch images (Click c) p)) =
     pending p @ [entry_src (images ! nat (currentIndex (state_of (dispatch images (Click c) p))))]"
proof (cases c)
  case Prev
  with assms(1,3) pending_prevButton_click [OF assms(5,6,7)] show ?thesis by simp
next
  case Next
  with assms(2,4) pending_nextButton_click [OF assms(5,6,7)] show ?thesis by simp
qed

text \<open>
  An instance of C5: after one click on next, the load started at initialization for
  the first entry fails.
\<close>

theorem load_failure_commits_error_triple_witness:
  "0 < length (pending (run site_images [Click Next]
        (state_of (initializeImageSlider site_images full_dom)))) \<and>
   \<not> threw (dispatch site_images (LoadFails 0)
        (run site_images [Click Next] (state_of (initializeImageSlider site_images full_dom)))) \<and>
   shown (state_of (dispatch site_images (LoadFails 0)
        (run site_images [Click Next] (state_of (initializeImageSlider site_images full_dom))))) =
     Some ('''', ''Image failed to load'', ''Image failed to load'') \<and>
   opacity_of (state_of (dispatch site_images (LoadFails 0)
        (run site_images [Click Next] (state_of (initializeImageSlider site_images full_dom))))) =
     Some ''1''"
proof -
  let ?s = "state_of (initializeImageSlider site_images full_dom)"
  have "pending (state_of (dispatch site_images (Click Next) ?s)) \<noteq> []"
    using pending_click [of ?s site_images Next] init_wired [OF complete_full_dom, of site_images]
      site_images_nonempty reachable_valid_index [of site_images "[]" full_dom]
    by simp
  then have k: "0 < length (pending (run site_images [Click Next] ?s))" by simp
  from load_failure_commits_error_triple [OF refl k] k show ?thesis by simp
qed

subsection \<open>What a successful load commits\<close>

text \<open>
  Claim C4, as the code has it. In every state reached from initialization, when an
  outstanding pre-load succeeds, the handler completes and commits, in that one run, the
  entry at the value \<open>currentIndex\<close> has at that moment: its source to the visible
  image's \<open>src\<close>, its caption to the alt text and to the caption element, and the
  opacity returns to \<open>1\<close>. A click starts the pre-load of the entry at the cursor it
  has just set, so the entry committed is the one requested as long as no further click
  comes before the load completes.
\<close>

theorem load_success_commits_current_entry:
  assumes "p = run images evs (state_of (initializeImageSlider images d))"
  shows "(k < length (pending p) \<longrightarrow>
       \<not> threw (dispatch images (LoadSucceeds k) p) \<and>
       shown (state_of (dispatch images (LoadSucceeds k) p)) =
         Some (entry_src (images ! nat (currentIndex p)), caption (images ! nat (currentIndex p)),
           caption (images ! nat (currentIndex p))) \<and>
       opacity_of (state_of (dispatch images (LoadSucceeds k) p)) = Some ''1'') \<and>
     (complete_dom d \<and> images \<noteq> [] \<longrightarrow>
       pending (state_of (dispatch images (Click c) p)) =
         pending p @
           [entry_src (images ! nat (currentIndex (state_of (dispatch images (Click c) p))))])"
proof (intro conjI impI)
  assume k: "k < length (pending p)"
  with assms obtain im cap where el: "sliderImage p = Some im" "imageCaption p = Some cap"
    "valid_index images (currentIndex p)"
    using reachable_pending [of k images evs d] by auto
  from load_succeeds_at(1) [OF el k]
  show "\<not> threw (dispatch images (LoadSucceeds k) p)" .
  from load_succeeds_at(2) [OF el k]
  show "shown (state_of (dispatch images (LoadSucceeds k) p)) =
      Some (entry_src (images ! nat (currentIndex p)), caption (images ! nat (currentIndex p)),
        caption (images ! nat (currentIndex p)))"
    by (simp add: triple_of_def)
  from load_succeeds_at(3) [OF el k]
  show "opacity_of (state_of (dispatch images (LoadSucceeds k) p)) = Some ''1''" .
next
  assume "complete_dom d \<and> images \<noteq> []"
  then have c: "complete_dom d" and ne: "images \<noteq> []" by simp_all
  show "pending (state_of (dispatch images (Click c) p)) =
      pending p @
        [entry_src (images ! nat (currentIndex (state_of (dispatch images (Click c) p))))]"
    unfolding assms
    using reachable_wired [OF c, of images evs] ne reachable_valid_index [OF ne, of evs d]
    by (intro pending_click) simp_all
qed

lemma length_site_images: "length site_images = 6"
  by (simp add: site_images_def)

lemma sample_pending:
  "pending (run site_images [Click Next] (state_of (initializeImageSlider site_images full_dom))) =
     [''assets/images/Main Menu Showcase.PNG'', ''assets/images/Agent Showcase.png'']"
proof -
  let ?s = "state_of (initializeImageSlider site_images full_dom)"
  have s: "pending ?s = [entry_src (site_images ! 0)]"
    using complete_full_dom site_images_nonempty by (rule init_pending)
  have i: "currentIndex (state_of (dispatch site_images (Click Next) ?s)) = 1"
    unfolding currentIndex_dispatch using init_wired [OF complete_full_dom, of site_images]
    by (simp add: length_site_images)
  have "pending (state_of (dispatch site_images (Click Next) ?s)) =
      pending ?s @ [entry_src (site_images ! nat 1)]"
    using pending_click [of ?s site_images Next] init_wired [OF complete_full_dom, of site_images]
      site_images_nonempty reachable_valid_index [of site_images "[]" full_dom]
    unfolding i by simp
  with s show ?thesis by (simp add: site_images_def)
qed

lemma sample_cursor:
  "currentIndex (run site_images [Click Next]
      (state_of (initializeImageSlider site_images full_dom))) = 1"
proof -
  have "currentIndex (state_of (dispatch site_images (Click Next)
      (state_of (initializeImageSlider site_images full_dom)))) = 1"
    unfolding currentIndex_dispatch using init_wired [OF complete_full_dom, of site_images]
    by (simp add: length_site_images)
  then show ?thesis by simp
qed

text \<open>
  An instance of C4 as amended: after one click on next the cursor is 1, and the
  success of the first outstanding load puts the second entry on show; a further click
  on previous starts the load of the entry it moved to.
\<close>

theorem load_success_commits_current_entry_witness:
  "0 < length (pending (run site_images [Click Next]
        (state_of (initializeImageSlider site_images full_dom)))) \<and>
   complete_dom full_dom \<and> site_images \<noteq> [] \<and>
   shown (state_of (dispatch site_images (LoadSucceeds 0)
        (run site_images [Click Next] (state_of (initializeImageSlider site_images full_dom))))) =
     Some (''assets/images/Agent Showcase.png'', ''Agent Mode Showcase'', ''Agent Mode Showcase'') \<and>
   pending (state_of (dispatch site_images (Click Prev)
        (run site_images [Click Next] (state_of (initializeImageSlider site_images full_dom))))) =
     pending (run site_images [Click Next] (state_of (initializeImageSlider site_images full_dom))) @
       [entry_src (site_images ! nat (currentIndex (state_of (dispatch site_images (Click Prev)
          (run site_images [Click Next]
            (state_of (initializeImageSlider site_images full_dom)))))))]"
proof -
  let ?p = "run site_images [Click Next] (state_of (initializeImageSlider site_images full_dom))"
  have k: "0 < length (pending ?p)" unfolding sample_pending by simp
  note inst = load_success_commits_current_entry
    [where images = site_images and evs = "[Click Next]" and d = full_dom and k = 0
      and c = Prev, OF refl]
  from inst k
  have "shown (state_of (dispatch site_images (LoadSucceeds 0) ?p)) =
      Some (entry_src (site_images ! nat (currentIndex ?p)),
        caption (site_images ! nat (currentIndex ?p)), caption (site_images ! nat (currentIndex ?p)))"
    by blast
  then have "shown (state_of (dispatch site_images (LoadSucceeds 0) ?p)) =
      Some (''assets/images/Agent Showcase.png'', ''Agent Mode Showcase'', ''Agent Mode Showcase'')"
    unfolding sample_cursor by (simp add: site_images_def)
  moreover from inst complete_full_dom site_images_nonempty
  have "pending (state_of (dispatch site_images (Click Prev) ?p)) =
      pending ?p @ [entry_src (site_images !
        nat (currentIndex (state_of (dispatch site_images (Click Prev) ?p))))]"
    by blast
  ultimately show ?thesis using k complete_full_dom site_images_nonempty by blast
qed

text \<open>
  Claim C4 as stated fails: after one click on next, the oldest outstanding load is the
  pre-load of the first entry, and its success does not commit the first entry.
\<close>

theorem stale_load_commits_other_entry:
  "pending (run site_images [Click Next]
       (state_of (initializeImageSlider site_images full_dom))) ! 0 =
     entry_src (site_images ! 0) \<and>
   shown (state_of (dispatch site_images (LoadSucceeds 0)
        (run site_images [Click Next] (state_of (initializeImageSlider site_images full_dom))))) \<noteq>
     Some (entry_src (site_images ! 0), caption (site_images ! 0), caption (site_images ! 0))"
proof -
  let ?p = "run site_images [Click Next] (state_of (initializeImageSlider site_images full_dom))"
  have k: "0 < length (pending ?p)" unfolding sample_pending by simp
  obtain im cap where el: "sliderImage ?p = Some im" "imageCaption ?p = Some cap"
    "valid_index site_images (currentIndex ?p)"
    using reachable_pending [OF k] by auto
  have "shown (state_of (dispatch site_images (LoadSucceeds 0) ?p)) =
      Some (triple_of site_images 1)"
    using load_succeeds_at(2) [OF el k] unfolding sample_cursor .
  moreover have "triple_of site_images 1 \<noteq>
      (entry_src (site_images ! 0), caption (site_images ! 0), caption (site_images ! 0))"
    by (simp add: triple_of_def site_images_def)
  moreover have "pending ?p ! 0 = entry_src (site_images ! 0)"
    unfolding sample_pending by (simp add: site_images_def)
  ultimately show ?thesis by simp
qed

subsection \<open>The disabled and the aborted slider\<close>

text \<open>
  Claim C2, as the code has it. With an empty entry list and all four elements present,
  initialization completes, hides the display image and both buttons, writes
  "No images to display." into the caption element and leaves that element's
  \<open>display\<close> as it was, starts no load and leaves the cursor at 0. In both copies.
\<close>

theorem empty_entries_disable_slider:
  assumes "complete_dom d"
  shows "\<not> threw (initializeImageSlider [] d) \<and>
     disabled_rendering d (state_of (initializeImageSlider [] d)) \<and>
     \<not> threw (initializeImageSlider_sync [] d) \<and>
     disabled_rendering d (state_of (initializeImageSlider_sync [] d))"
proof -
  from assms obtain im cap pb nb where el: "sliderImage d = Some im" "imageCaption d = Some cap"
      "prevButton d = Some pb" "nextButton d = Some nb"
    by (rule complete_domE)
  have "\<not> threw (initializeImageSlider [] d)"
    by (simp add: init_empty [OF el])
  moreover have "disabled_rendering d (state_of (initializeImageSlider [] d))"
    by (simp add: init_empty [OF el] disabled_rendering_def hidden_def el)
  moreover have "\<not> threw (initializeImageSlider_sync [] d)"
    by (simp add: init_sync_empty [OF el])
  moreover have "disabled_rendering d (state_of (initializeImageSlider_sync [] d))"
    by (simp add: init_sync_empty [OF el] disabled_rendering_def hidden_def el)
  ultimately show ?thesis by simp
qed

text \<open>An instance of C2 as amended, on a page with four blank elements.\<close>

theorem empty_entries_disable_slider_witness:
  "complete_dom full_dom \<and>
   \<not> threw (initializeImageSlider [] full_dom) \<and>
   disabled_rendering full_dom (state_of (initializeImageSlider [] full_dom)) \<and>
   \<not> threw (initializeImageSlider_sync [] full_dom) \<and>
   disabled_rendering full_dom (state_of (initializeImageSlider_sync [] full_dom))"
  using empty_entries_disable_slider [OF complete_full_dom] complete_full_dom by simp

text \<open>
  Claim C2 as stated fails: on a page with four blank elements and no entries, the
  four elements are not all hidden, since the caption element keeps its \<open>display\<close>.
\<close>

theorem empty_entries_caption_not_hidden:
  "\<not> (hidden (sliderImage (state_of (initializeImageSlider [] full_dom))) \<and>
      hidden (imageCaption (state_of (initializeImageSlider [] full_dom))) \<and>
      hidden (prevButton (state_of (initializeImageSlider [] full_dom))) \<and>
      hidden (nextButton (state_of (initializeImageSlider [] full_dom))))"
proof -
  have el: "sliderImage full_dom = Some blank" "imageCaption full_dom = Some blank"
    "prevButton full_dom = Some blank" "nextButton full_dom = Some blank"
    by (simp_all add: full_dom_def)
  have "imageCaption (state_of (initializeImageSlider [] full_dom)) =
      Some (blank\<lparr>el_textContent := ''No images to display.''\<rparr>)"
    by (simp add: init_empty [OF el])
  then have "\<not> hidden (imageCaption (state_of (initializeImageSlider [] full_dom)))"
    by (simp add: hidden_def blank_def)
  then show ?thesis by simp
qed

text \<open>
  The listeners are attached to the buttons also when the list is empty. The buttons
  are hidden, so a visitor cannot click them; a click delivered by a script would run
  the handler, which moves the cursor to \<open>-1\<close> and throws at \<open>images[-1]\<close>.
\<close>

lemma empty_entries_click_not_inert:
  "currentIndex (run [] [Click Prev] (state_of (initializeImageSlider [] full_dom))) = - 1 \<and>
   threw (dispatch [] (Click Prev) (state_of (initializeImageSlider [] full_dom))) \<and>
   currentIndex (run_sync [] [Prev] (state_of (initializeImageSlider_sync [] full_dom))) = - 1 \<and>
   threw (dispatch_sync [] Prev (state_of (initializeImageSlider_sync [] full_dom)))"
proof -
  have el: "sliderImage full_dom = Some blank" "imageCaption full_dom = Some blank"
    "prevButton full_dom = Some blank" "nextButton full_dom = Some blank"
    by (simp_all add: full_dom_def)
  show ?thesis
    by (simp add: init_empty [OF el] init_sync_empty [OF el] prevButton_click_def
        prevButton_click_sync_def updateSlider_def updateSlider_sync_def entry_at_def)
qed

text \<open>
  Claim C9. If any of the four slider elements is absent, initialization returns
  without throwing, leaves every element as it was, attaches no listener and starts no
  load; its only trace is on the console (two entries in the asynchronous copy, none in
  the synchronous one). No later event changes the state.
\<close>

theorem missing_element_aborts:
  assumes "\<not> complete_dom d"
  shows "\<not> threw (initializeImageSlider images d) \<and>
     left_inert d (state_of (initializeImageSlider images d)) \<and>
     console (state_of (initializeImageSlider images d)) =
       [ConsoleLog ''Image slider elements:'', ConsoleError ''Image slider elements not found''] \<and>
     run images evs (state_of (initializeImageSlider images d)) =
       state_of (initializeImageSlider images d) \<and>
     \<not> threw (initializeImageSlider_sync images d) \<and>
     left_inert d (state_of (initializeImageSlider_sync images d)) \<and>
     console (state_of (initializeImageSlider_sync images d)) = [] \<and>
     run_sync images cs (state_of (initializeImageSlider_sync images d)) =
       state_of (initializeImageSlider_sync images d)"
proof -
  let ?s = "state_of (initializeImageSlider images d)"
  let ?t = "state_of (initializeImageSlider_sync images d)"
  have s: "left_inert d ?s"
    by (simp add: init_missing [OF assms] left_inert_def page_of_def)
  have t: "left_inert d ?t"
    by (simp add: init_sync_missing [OF assms] left_inert_def page_of_def)
  have "run images evs ?s = ?s"
    using s by (intro run_inert) (simp_all add: left_inert_def)
  moreover have "run_sync images cs ?t = ?t"
    using t by (intro run_sync_inert) (simp_all add: left_inert_def)
  moreover have "\<not> threw (initializeImageSlider images d)"
    "\<not> threw (initializeImageSlider_sync images d)"
    by (simp_all add: init_missing [OF assms] init_sync_missing [OF assms])
  moreover have "console ?s =
      [ConsoleLog ''Image slider elements:'', ConsoleError ''Image slider elements not found'']"
    by (simp add: init_missing [OF assms])
  moreover have "console ?t = []"
    by (simp add: init_sync_missing [OF assms] page_of_def)
  ultimately show ?thesis using s t by simp
qed

lemma incomplete_no_caption_dom: "\<not> complete_dom no_caption_dom"
  by (simp add: complete_dom_def no_caption_dom_def)

text \<open>An instance of C9: a page without the caption element.\<close>

theorem missing_element_aborts_witness:
  "\<not> complete_dom no_caption_dom \<and>
   \<not> threw (initializeImageSlider site_images no_caption_dom) \<and>
   left_inert no_caption_dom (state_of (initializeImageSlider site_images no_caption_dom)) \<and>
   run site_images [Click Next, Click Prev]
       (state_of (initializeImageSlider site_images no_caption_dom)) =
     state_of (initializeImageSlider site_images no_caption_dom) \<and>
   \<not> threw (initializeImageSlider_sync site_images no_caption_dom) \<and>
   left_inert no_caption_dom (state_of (initializeImageSlider_sync site_images no_caption_dom)) \<and>
   run_sync site_images [Next, Prev]
       (state_of (initializeImageSlider_sync site_images no_caption_dom)) =
     state_of (initializeImageSlider_sync site_images no_caption_dom)"
  using missing_element_aborts [OF incomplete_no_caption_dom, of site_images
      "[Click Next, Click Prev]" "[Next, Prev]"] incomplete_no_caption_dom
  by blast

subsection \<open>The two copies of the slider\<close>

lemma same_cursor_init:
  "same_cursor (state_of (initializeImageSlider images d))
     (state_of (initializeImageSlider_sync images d))"
proof (cases "complete_dom d")
  case False
  then show ?thesis
    by (simp add: init_missing init_sync_missing same_cursor_def same_wiring_def)
next
  case True
  then obtain im cap pb nb where el: "sliderImage d = Some im" "imageCaption d = Some cap"
      "prevButton d = Some pb" "nextButton d = Some nb"
    by (rule complete_domE)
  show ?thesis
    by (cases "images = []")
      (simp_all add: init_empty [OF el] init_nonempty [OF el] init_sync_empty [OF el]
        init_sync_nonempty [OF el] same_cursor_def same_wiring_def)
qed

lemma same_cursor_click:
  assumes "same_cursor p q"
  shows "same_cursor (state_of (dispatch images (Click c) p))
     (state_of (dispatch_sync images c q))"
proof -
  let ?p' = "state_of (dispatch images (Click c) p)"
  let ?q' = "state_of (dispatch_sync images c q)"
  from assms have pq: "same_wiring p q" and i: "currentIndex q = currentIndex p"
    by (simp_all add: same_cursor_def)
  have "same_wiring ?p' p" by (rule same_wiring_sym) (rule wiring_dispatch)
  moreover have "same_wiring q ?q'" by (rule wiring_dispatch_sync)
  ultimately have w: "same_wiring ?p' ?q'"
    using pq by (blast intro: same_wiring_trans)
  have "currentIndex ?q' = currentIndex ?p'"
    unfolding currentIndex_dispatch currentIndex_dispatch_sync
    using pq i by (cases c) (simp_all add: same_wiring_def)
  with w show ?thesis by (simp add: same_cursor_def)
qed

lemma same_cursor_load:
  assumes "same_cursor p q" and "clicks_of [ev] = []"
  shows "same_cursor (state_of (dispatch images ev p)) q"
proof -
  let ?p' = "state_of (dispatch images ev p)"
  from assms have pq: "same_wiring p q" and i: "currentIndex q = currentIndex p"
    by (simp_all add: same_cursor_def)
  have "same_wiring ?p' p" by (rule same_wiring_sym) (rule wiring_dispatch)
  with pq have w: "same_wiring ?p' q" by (blast intro: same_wiring_trans)
  have "currentIndex ?p' = currentIndex p"
    unfolding currentIndex_dispatch using assms(2) by (cases ev) simp_all
  with w i show ?thesis by (simp add: same_cursor_def)
qed

lemma same_cursor_run:
  "same_cursor p q \<Longrightarrow> same_cursor (run images evs p) (run_sync images (clicks_of evs) q)"
proof (induction evs arbitrary: p q)
  case Nil
  then show ?case by simp
next
  case (Cons ev evs)
  show ?case
  proof (cases ev)
    case (Click c)
    with Cons.IH [OF same_cursor_click [OF Cons.prems, of images c]] show ?thesis by simp
  next
    case (LoadSucceeds k)
    then have "clicks_of [ev] = []" by simp
    from Cons.IH [OF same_cursor_load [OF Cons.prems this, of images]] LoadSucceeds
    show ?thesis by simp
  next
    case (LoadFails k)
    then have "clicks_of [ev] = []" by simp
    from Cons.IH [OF same_cursor_load [OF Cons.prems this, of images]] LoadFails
    show ?thesis by simp
  qed
qed

text \<open>The synchronous copy always shows the entry at its cursor.\<close>

lemma sync_click_shows:
  assumes "shown q = Some (triple_of images (currentIndex q))" and "images \<noteq> []"
    and "valid_index images (currentIndex q)"
  shows "shown (state_of (dispatch_sync images c q)) =
     Some (triple_of images (currentIndex (state_of (dispatch_sync images c q))))"
proof -
  from assms(1) obtain im cap where el: "sliderImage q = Some im" "imageCaption q = Some cap"
    by (auto simp: shown_def split: option.splits)
  have v: "valid_index images (currentIndex (state_of (dispatch_sync images c q)))"
    using assms(2,3) by (rule valid_index_dispatch_sync)
  show ?thesis
  proof (cases c)
    case Prev
    let ?i = "if currentIndex q > 0 then currentIndex q - 1 else int (length images) - 1"
    show ?thesis
    proof (cases "prevButton q \<noteq> None \<and> prev_listener q")
      case True
      with v Prev have vi: "valid_index images ?i"
        by (simp add: currentIndex_prevButton_click_sync)
      have "updateSlider_sync images (q\<lparr>currentIndex := ?i\<rparr>) =
          Completed (q\<lparr>currentIndex := ?i,
            sliderImage := Some (im\<lparr>el_src := entry_src (images ! nat ?i),
              el_alt := caption (images ! nat ?i)\<rparr>),
            imageCaption := Some (cap\<lparr>el_textContent := caption (images ! nat ?i)\<rparr>)\<rparr>)"
        using updateSlider_sync_ready [of "q\<lparr>currentIndex := ?i\<rparr>" im cap images] el vi
        by simp
      with True Prev show ?thesis
        by (simp add: prevButton_click_sync_def shown_def triple_of_def)
    next
      case False
      with Prev assms(1) show ?thesis by auto
    qed
  next
    case Next
    let ?i = "if currentIndex q < int (length images) - 1 then currentIndex q + 1 else 0"
    show ?thesis
    proof (cases "nextButton q \<noteq> None \<and> next_listener q")
      case True
      with v Next have vi: "valid_index images ?i"
        by (simp add: currentIndex_nextButton_click_sync)
      have "updateSlider_sync images (q\<lparr>currentIndex := ?i\<rparr>) =
          Completed (q\<lparr>currentIndex := ?i,
            sliderImage := Some (im\<lparr>el_src := entry_src (images ! nat ?i),
              el_alt := caption (images ! nat ?i)\<rparr>),
            imageCaption := Some (cap\<lparr>el_textContent := caption (images ! nat ?i)\<rparr>)\<rparr>)"
        using updateSlider_sync_ready [of "q\<lparr>currentIndex := ?i\<rparr>" im cap images] el vi
        by simp
      with True Next show ?thesis
        by (simp add: nextButton_click_sync_def shown_def triple_of_def)
    next
      case False
      with Next assms(1) show ?thesis by auto
    qed
  qed
qed

lemma sync_run_shows:
  assumes "images \<noteq> []"
  shows "shown q = Some (triple_of images (currentIndex q)) \<Longrightarrow>
     valid_index images (currentIndex q) \<Longrightarrow>
     shown (run_sync images cs q) = Some (triple_of images (currentIndex (run_sync images cs q)))"
proof (induction cs arbitrary: q)
  case Nil
  then show ?case by simp
next
  case (Cons c cs)
  from Cons.IH [OF sync_click_shows [OF Cons.prems(1) assms Cons.prems(2)]
      valid_index_dispatch_sync [OF assms Cons.prems(2)]]
  show ?case by simp
qed

lemma sync_init_shows:
  assumes "complete_dom d" and "images \<noteq> []"
  shows "shown (state_of (initializeImageSlider_sync images d)) = Some (triple_of images 0)"
proof -
  from assms(1) obtain im cap pb nb where el: "sliderImage d = Some im"
      "imageCaption d = Some cap" "prevButton d = Some pb" "nextButton d = Some nb"
    by (rule complete_domE)
  from assms(2) show ?thesis
    by (simp add: init_sync_nonempty [OF el] shown_def triple_of_def)
qed

text \<open>
  Claim C10. Over the same entry list and page, after the same clicks, the two copies
  hold the same \<open>currentIndex\<close>, whatever loads succeed or fail in between in the
  asynchronous copy. They differ in when the entry is committed: on a complete page
  with entries, as soon as an outstanding load succeeds, the asynchronous copy shows
  what the synchronous copy shows already.
\<close>

theorem copies_agree_on_cursor:
  "currentIndex (run images evs (state_of (initializeImageSlider images d))) =
     currentIndex (run_sync images (clicks_of evs)
       (state_of (initializeImageSlider_sync images d))) \<and>
   (complete_dom d \<and> images \<noteq> [] \<and>
      k < length (pending (run images evs (state_of (initializeImageSlider images d)))) \<longrightarrow>
    shown (state_of (dispatch images (LoadSucceeds k)
        (run images evs (state_of (initializeImageSlider images d))))) =
      shown (run_sync images (clicks_of evs) (state_of (initializeImageSlider_sync images d))))"
proof (intro conjI impI)
  let ?p = "run images evs (state_of (initializeImageSlider images d))"
  let ?q = "run_sync images (clicks_of evs) (state_of (initializeImageSlider_sync images d))"
  have sc: "same_cursor ?p ?q" by (intro same_cursor_run same_cursor_init)
  then show i: "currentIndex ?p = currentIndex ?q" by (simp add: same_cursor_def)
  assume h: "complete_dom d \<and> images \<noteq> [] \<and> k < length (pending ?p)"
  then have c: "complete_dom d" and ne: "images \<noteq> []" and k: "k < length (pending ?p)"
    by simp_all
  obtain im cap where el: "sliderImage ?p = Some im" "imageCaption ?p = Some cap"
    "valid_index images (currentIndex ?p)"
    using reachable_pending [OF k] by auto
  have "shown ?q = Some (triple_of images (currentIndex ?q))"
    using ne sync_init_shows [OF c ne] by (intro sync_run_shows) (simp_all add: valid_index_def)
  with load_succeeds_at(2) [OF el k] i
  show "shown (state_of (dispatch images (LoadSucceeds k) ?p)) = shown ?q" by simp
qed

text \<open>An instance of C10: one click on next, then the first load succeeds.\<close>

theorem copies_agree_on_cursor_witness:
  "complete_dom full_dom \<and> site_images \<noteq> [] \<and>
   0 < length (pending (run site_images [Click Next]
        (state_of (initializeImageSlider site_images full_dom)))) \<and>
   currentIndex (run site_images [Click Next]
       (state_of (initializeImageSlider site_images full_dom))) =
     currentIndex (run_sync site_images (clicks_of [Click Next])
       (state_of (initializeImageSlider_sync site_images full_dom))) \<and>
   shown (state_of (dispatch site_images (LoadSucceeds 0)
        (run site_images [Click Next] (state_of (initializeImageSlider site_images full_dom))))) =
     shown (run_sync site_images (clicks_of [Click Next])
       (state_of (initializeImageSlider_sync site_images full_dom)))"
proof -
  have k: "0 < length (pending (run site_images [Click Next]
      (state_of (initializeImageSlider site_images full_dom))))"
    unfolding sample_pending by simp
  from copies_agree_on_cursor [of site_images "[Click Next]" full_dom 0]
    complete_full_dom site_images_nonempty k
  show ?thesis by blast
qed

section \<open>Properties of the fullscreen viewer\<close>

lemma state_of_set_modal [simp]:
  "state_of (set_modal f p) = p\<lparr>modal := map_option f (modal p)\<rparr>"
  by (simp add: set_modal_def split: option.splits)

lemma threw_set_modal [simp]: "threw (set_modal f p) \<longleftrightarrow> modal p = None"
  by (simp add: set_modal_def split: option.splits)

lemma state_of_set_modalImg [simp]:
  "state_of (set_modalImg f p) = p\<lparr>modalImg := map_option f (modalImg p)\<rparr>"
  by (simp add: set_modalImg_def split: option.splits)

lemma threw_set_modalImg [simp]: "threw (set_modalImg f p) \<longleftrightarrow> modalImg p = None"
  by (simp add: set_modalImg_def split: option.splits)

lemma state_of_set_captionText [simp]:
  "state_of (set_captionText f p) = p\<lparr>captionText := map_option f (captionText p)\<rparr>"
  by (simp add: set_captionText_def split: option.splits)

lemma threw_set_captionText [simp]: "threw (set_captionText f p) \<longleftrightarrow> captionText p = None"
  by (simp add: set_captionText_def split: option.splits)

lemma state_of_set_body_overflow [simp]:
  "state_of (set_body_overflow v p) = p\<lparr>body_overflow := v\<rparr>"
  by (simp add: set_body_overflow_def)

lemma threw_set_body_overflow [simp]: "\<not> threw (set_body_overflow v p)"
  by (simp add: set_body_overflow_def)

lemma viewer_wiring_refl [simp]: "viewer_wiring p p"
  by (simp add: viewer_wiring_def)

lemma viewer_wiring_trans: "viewer_wiring p q \<Longrightarrow> viewer_wiring q r \<Longrightarrow> viewer_wiring p r"
  by (simp add: viewer_wiring_def)

lemma wiring_img_click: "viewer_wiring p (state_of (img_click this p))"
  by (simp add: viewer_wiring_def img_click_def)

lemma wiring_hide_modal: "viewer_wiring p (state_of (hide_modal p))"
  by (simp add: viewer_wiring_def hide_modal_def)

lemma wiring_document_keydown: "viewer_wiring p (state_of (document_keydown key p))"
  using wiring_hide_modal [of p]
  by (simp add: document_keydown_def split: option.splits)

lemma wiring_dispatch_viewer: "viewer_wiring p (state_of (dispatch_viewer ev p))"
proof (cases ev)
  case (ImageClick this)
  then show ?thesis by (simp add: wiring_img_click)
next
  case CloseClick
  then show ?thesis by (simp add: closeBtn_click_def wiring_hide_modal)
next
  case (ModalClick target)
  then show ?thesis by (simp add: modal_click_def wiring_hide_modal)
next
  case (KeyDown key)
  then show ?thesis by (simp add: wiring_document_keydown)
qed

lemma wiring_run_viewer: "viewer_wiring p (run_viewer evs p)"
proof (induction evs arbitrary: p)
  case Nil
  show ?case by simp
next
  case (Cons ev evs)
  from viewer_wiring_trans [OF wiring_dispatch_viewer Cons.IH] show ?case by simp
qed

lemma viewer_inv_setup: "viewer_inv (state_of (setupImageFullscreen d))"
  by (simp add: viewer_inv_def setupImageFullscreen_def viewer_page_of_def)

lemma viewer_ready_setup:
  assumes "viewer_dom_complete d"
  shows "\<not> threw (setupImageFullscreen d)" and "viewer_ready (state_of (setupImageFullscreen d))"
  using assms
  by (simp_all add: viewer_dom_complete_def viewer_ready_def setupImageFullscreen_def
      viewer_page_of_def)

lemma viewer_inv_reachable: "viewer_inv (run_viewer evs (state_of (setupImageFullscreen d)))"
  using viewer_inv_setup [of d] wiring_run_viewer [of "state_of (setupImageFullscreen d)" evs]
  by (simp add: viewer_inv_def viewer_wiring_def)

lemma viewer_ready_reachable:
  assumes "viewer_dom_complete d"
  shows "viewer_ready (run_viewer evs (state_of (setupImageFullscreen d)))"
  using viewer_ready_setup(2) [OF assms]
    wiring_run_viewer [of "state_of (setupImageFullscreen d)" evs]
  by (simp add: viewer_ready_def viewer_wiring_def)

lemma captionContent_spec: "captionContent this = spec_caption this"
  by (simp add: captionContent_def spec_caption_def nearbyCaption_def alt_or_empty_def
      split: nearby.splits option.splits)

lemma spec_caption_bare:
  "nearbyCaption this = None \<Longrightarrow> this_alt this = None \<or> this_alt this = Some '''' \<Longrightarrow>
     spec_caption this = ''''"
  by (auto simp: spec_caption_def nearbyCaption_def split: nearby.splits)

lemma img_click_ready:
  assumes "viewer_ready p"
  shows "\<not> threw (img_click this p)"
    and "modal_caption (state_of (img_click this p)) = Some (captionContent this)"
    and "modal_image (state_of (img_click this p)) = Some (this_src this)"
    and "visible (state_of (img_click this p))"
    and "body_overflow (state_of (img_click this p)) = ''hidden''"
  using assms
  by (auto simp: viewer_ready_def img_click_def modal_caption_def modal_image_def visible_def)

lemma hide_modal_ready:
  assumes "modal p \<noteq> None"
  shows "\<not> threw (hide_modal p)" and "\<not> visible (state_of (hide_modal p))"
    and "body_overflow (state_of (hide_modal p)) = ''auto''"
    and "modal_image (state_of (hide_modal p)) = modal_image p"
    and "modal_caption (state_of (hide_modal p)) = modal_caption p"
  using assms by (auto simp: hide_modal_def visible_def modal_image_def modal_caption_def)

text \<open>
  Claim C6. On a page that provides the viewer's four elements, a click on a matched
  image completes without throwing and sets the modal caption to the text of the
  nearby caption element if there is one, otherwise to the alt text, otherwise to the
  empty string. An image with neither yields the empty caption, not "undefined".
\<close>

theorem viewer_caption_fallback:
  assumes "viewer_dom_complete d" and "p = run_viewer evs (state_of (setupImageFullscreen d))"
  shows "\<not> threw (dispatch_viewer (ImageClick this) p) \<and>
     modal_caption (state_of (dispatch_viewer (ImageClick this) p)) = Some (spec_caption this) \<and>
     (nearbyCaption this = None \<and> (this_alt this = None \<or> this_alt this = Some '''') \<longrightarrow>
        modal_caption (state_of (dispatch_viewer (ImageClick this) p)) = Some '''') \<and>
     (nearbyCaption this = None \<and> (this_alt this = None \<or> this_alt this = Some '''') \<longrightarrow>
        modal_caption (state_of (dispatch_viewer (ImageClick this) p)) \<noteq> Some ''undefined'')"
proof -
  have r: "viewer_ready p" unfolding assms(2) using assms(1) by (rule viewer_ready_reachable)
  then have d: "dispatch_viewer (ImageClick this) p = img_click this p"
    by (simp add: viewer_ready_def)
  have c: "modal_caption (state_of (dispatch_viewer (ImageClick this) p)) =
      Some (spec_caption this)"
    unfolding d using img_click_ready(2) [OF r, of this] by (simp add: captionContent_spec)
  have "\<not> threw (dispatch_viewer (ImageClick this) p)"
    unfolding d using r by (rule img_click_ready(1))
  with c show ?thesis by (auto simp: spec_caption_bare)
qed

text \<open>
  Claim C7. In every state reached from setup, Escape pressed while the modal is not
  visible completes and leaves the whole state as it was. On a page that provides the
  viewer's four elements, Escape pressed while the modal is visible completes, hides
  the modal and restores page scroll.
\<close>

theorem escape_key:
  assumes "p = run_viewer evs (state_of (setupImageFullscreen d))"
  shows "(\<not> visible p \<longrightarrow> dispatch_viewer (KeyDown ''Escape'') p = Completed p) \<and>
     (viewer_dom_complete d \<and> visible p \<longrightarrow>
        \<not> threw (dispatch_viewer (KeyDown ''Escape'') p) \<and>
        \<not> visible (state_of (dispatch_viewer (KeyDown ''Escape'') p)) \<and>
        body_overflow (state_of (dispatch_viewer (KeyDown ''Escape'') p)) = ''auto'')"
proof (intro conjI impI)
  assume h: "\<not> visible p"
  have "viewer_inv p" unfolding assms by (rule viewer_inv_reachable)
  with h show "dispatch_viewer (KeyDown ''Escape'') p = Completed p"
    by (auto simp: viewer_inv_def visible_def document_keydown_def split: option.splits)
next
  assume h: "viewer_dom_complete d \<and> visible p"
  then have r: "viewer_ready p" unfolding assms by (intro viewer_ready_reachable) simp
  from h r have d: "dispatch_viewer (KeyDown ''Escape'') p = hide_modal p"
    by (auto simp: viewer_ready_def visible_def document_keydown_def split: option.splits)
  from r have m: "modal p \<noteq> None" by (simp add: viewer_ready_def)
  show "\<not> threw (dispatch_viewer (KeyDown ''Escape'') p)"
    unfolding d using m by (rule hide_modal_ready(1))
  show "\<not> visible (state_of (dispatch_viewer (KeyDown ''Escape'') p))"
    unfolding d using m by (rule hide_modal_ready(2))
  show "body_overflow (state_of (dispatch_viewer (KeyDown ''Escape'') p)) = ''auto''"
    unfolding d using m by (rule hide_modal_ready(3))
qed

text \<open>
  Claim C8. On a page that provides the viewer's four elements, while the modal is
  visible, a click whose target is the backdrop hides the modal and restores page
  scroll; a click whose target is the modal image changes nothing, so the modal stays
  visible.
\<close>

theorem backdrop_click_closes:
  assumes "viewer_dom_complete d" and "p = run_viewer evs (state_of (setupImageFullscreen d))"
    and "visible p"
  shows "\<not> threw (dispatch_viewer (ModalClick Backdrop) p) \<and>
     \<not> visible (state_of (dispatch_viewer (ModalClick Backdrop) p)) \<and>
     body_overflow (state_of (dispatch_viewer (ModalClick Backdrop) p)) = ''auto'' \<and>
     dispatch_viewer (ModalClick ModalImage) p = Completed p \<and>
     visible (state_of (dispatch_viewer (ModalClick ModalImage) p))"
proof -
  have r: "viewer_ready p" unfolding assms(2) using assms(1) by (rule viewer_ready_reachable)
  then have m: "modal p \<noteq> None" by (simp add: viewer_ready_def)
  from r have d: "dispatch_viewer (ModalClick Backdrop) p = hide_modal p"
    by (simp add: viewer_ready_def modal_click_def)
  from r have i: "dispatch_viewer (ModalClick ModalImage) p = Completed p"
    by (simp add: viewer_ready_def modal_click_def)
  from hide_modal_ready(1,2,3) [OF m] i assms(3) show ?thesis unfolding d by simp
qed

subsection \<open>Instances on a sample page\<close>

lemma complete_full_viewer_dom: "viewer_dom_complete full_viewer_dom"
  by (simp add: viewer_dom_complete_def full_viewer_dom_def)

lemma sample_closed: "\<not> visible (run_viewer [] (state_of (setupImageFullscreen full_viewer_dom)))"
  by (simp add: setupImageFullscreen_def viewer_page_of_def full_viewer_dom_def blank_def
      visible_def)

lemma sample_open:
  "visible (run_viewer [ImageClick bare_image] (state_of (setupImageFullscreen full_viewer_dom)))"
proof -
  have r: "viewer_ready (state_of (setupImageFullscreen full_viewer_dom))"
    using complete_full_viewer_dom by (rule viewer_ready_setup(2))
  then have "img_onclick (state_of (setupImageFullscreen full_viewer_dom))"
    by (simp add: viewer_ready_def)
  with img_click_ready(4) [OF r, of bare_image] show ?thesis by simp
qed

text \<open>An instance of C6: an image with no nearby caption and no alt text.\<close>

theorem viewer_caption_fallback_witness:
  "viewer_dom_complete full_viewer_dom \<and> nearbyCaption bare_image = None \<and>
   this_alt bare_image = None \<and>
   \<not> threw (dispatch_viewer (ImageClick bare_image)
       (run_viewer [] (state_of (setupImageFullscreen full_viewer_dom)))) \<and>
   modal_caption (state_of (dispatch_viewer (ImageClick bare_image)
       (run_viewer [] (state_of (setupImageFullscreen full_viewer_dom))))) = Some ''''"
proof -
  have n: "nearbyCaption bare_image = None" and a: "this_alt bare_image = None"
    by (simp_all add: nearbyCaption_def bare_image_def)
  from viewer_caption_fallback
    [where evs = "[]" and this = bare_image, OF complete_full_viewer_dom refl]
    complete_full_viewer_dom n a
  show ?thesis by blast
qed

text \<open>An instance of C7: Escape before and after an image was opened.\<close>

theorem escape_key_witness:
  "\<not> visible (run_viewer [] (state_of (setupImageFullscreen full_viewer_dom))) \<and>
   dispatch_viewer (KeyDown ''Escape'')
       (run_viewer [] (state_of (setupImageFullscreen full_viewer_dom))) =
     Completed (run_viewer [] (state_of (setupImageFullscreen full_viewer_dom))) \<and>
   viewer_dom_complete full_viewer_dom \<and>
   visible (run_viewer [ImageClick bare_image]
       (state_of (setupImageFullscreen full_viewer_dom))) \<and>
   \<not> visible (state_of (dispatch_viewer (KeyDown ''Escape'')
       (run_viewer [ImageClick bare_image] (state_of (setupImageFullscreen full_viewer_dom)))))"
  using escape_key [where evs = "[]" and d = full_viewer_dom, OF refl]
    escape_key [where evs = "[ImageClick bare_image]" and d = full_viewer_dom, OF refl]
    sample_closed sample_open complete_full_viewer_dom
  by blast

text \<open>An instance of C8: the modal opened by a click on an image.\<close>

theorem backdrop_click_closes_witness:
  "viewer_dom_complete full_viewer_dom \<and>
   visible (run_viewer [ImageClick bare_image]
       (state_of (setupImageFullscreen full_viewer_dom))) \<and>
   \<not> visible (state_of (dispatch_viewer (ModalClick Backdrop)
       (run_viewer [ImageClick bare_image] (state_of (setupImageFullscreen full_viewer_dom))))) \<and>
   body_overflow (state_of (dispatch_viewer (ModalClick Backdrop)
       (run_viewer [ImageClick bare_image] (state_of (setupImageFullscreen full_viewer_dom))))) =
     ''auto'' \<and>
   visible (state_of (dispatch_viewer (ModalClick ModalImage)
       (run_viewer [ImageClick bare_image] (state_of (setupImageFullscreen full_viewer_dom)))))"
  using backdrop_click_closes [OF complete_full_viewer_dom refl sample_open]
    sample_open complete_full_viewer_dom
  by blast

end
